theory Spec2Isabelle
  imports Complex_Main "HOL-Library.Monad_Syntax"
begin

section \<open>The regular expressions of meter.py\<close>

text \<open>
  \<^verbatim>\<open>P1Packet.get\<close> calls \<^verbatim>\<open>re.search(regex, self._raw, re.MULTILINE)\<close> and reads
  \<^verbatim>\<open>group(1)\<close> of the match. The patterns of the file use literals, the classes
  \<^verbatim>\<open>[0-9]\<close>, \<^verbatim>\<open>\d\<close>, \<^verbatim>\<open>.\<close> and \<^verbatim>\<open>[^)]\<close>, the greedy repetitions \<^verbatim>\<open>*\<close>, \<^verbatim>\<open>+\<close>,
  \<^verbatim>\<open>{n}\<close> and \<^verbatim>\<open>?\<close>, one capturing group, non-capturing groups and the anchors
  \<^verbatim>\<open>^\<close> and \<^verbatim>\<open>$\<close>. The matcher below is the backtracking search of Python's engine
  on that fragment: it lists the ways a pattern can match at a position, in the order
  in which the engine tries them, and the search takes the first way at the leftmost
  position. Characters are bytes, so \<^verbatim>\<open>\d\<close> and \<^verbatim>\<open>[0-9]\<close> are the same class.
\<close>

abbreviation nl :: char where
  "nl \<equiv> CHR 0x0A"

datatype cls = Lit char | Digit | Dot | NotCh char

definition is_digit :: "char \<Rightarrow> bool" where
  "is_digit c \<longleftrightarrow> c \<in> set ''0123456789''"

fun in_cls :: "cls \<Rightarrow> char \<Rightarrow> bool" where
  "in_cls (Lit c) x = (x = c)"
| "in_cls Digit x = is_digit x"
| "in_cls Dot x = (x \<noteq> nl)"
| "in_cls (NotCh c) x = (x \<noteq> c)"

text \<open>
  \<open>Star c\<close> is \<^verbatim>\<open>c*\<close> for a one-character class, \<open>GrpPlus c\<close> is \<^verbatim>\<open>(c)+\<close> (group 1
  around each repetition, so that it keeps the last one), \<open>Grp r\<close> is \<^verbatim>\<open>(r)\<close>,
  \<open>Opt r\<close> is \<^verbatim>\<open>(?:r)?\<close>, \<open>Bol\<close> and \<open>Eol\<close> are \<^verbatim>\<open>^\<close> and \<^verbatim>\<open>$\<close> in multi-line mode.
\<close>

datatype rx = Eps | Bol | Eol | Ch cls | Star cls | GrpPlus cls
  | Cat rx rx | Opt rx | Grp rx

text \<open>
  A position of the matcher: whether it is at the beginning of a line (the start of
  the text or just after a newline), the text still ahead, and the content of group 1
  (\<open>None\<close> while the group has not taken part).
\<close>

datatype mst = St (at_bol: bool) (rest: string) (grp: "string option")

fun star :: "cls \<Rightarrow> bool \<Rightarrow> string \<Rightarrow> string option \<Rightarrow> mst list" where
  "star c b [] g = [St b [] g]"
| "star c b (x # xs) g =
     (if in_cls c x then star c (x = nl) xs g @ [St b (x # xs) g]
      else [St b (x # xs) g])"

fun grp_plus :: "cls \<Rightarrow> string \<Rightarrow> mst list" where
  "grp_plus c [] = []"
| "grp_plus c (x # xs) =
     (if in_cls c x then grp_plus c xs @ [St (x = nl) xs (Some [x])] else [])"

fun m :: "rx \<Rightarrow> mst \<Rightarrow> mst list" where
  "m Eps s = [s]"
| "m Bol s = (if at_bol s then [s] else [])"
| "m Eol s = (case rest s of [] \<Rightarrow> [s] | x # _ \<Rightarrow> if x = nl then [s] else [])"
| "m (Ch c) s =
     (case rest s of [] \<Rightarrow> []
      | x # xs \<Rightarrow> if in_cls c x then [St (x = nl) xs (grp s)] else [])"
| "m (Star c) s = star c (at_bol s) (rest s) (grp s)"
| "m (GrpPlus c) s = grp_plus c (rest s)"
| "m (Cat a b) s = concat (map (m b) (m a s))"
| "m (Opt a) s = m a s @ [s]"
| "m (Grp a) s =
     map (\<lambda>s'. St (at_bol s') (rest s')
                  (Some (take (length (rest s) - length (rest s')) (rest s))))
       (m a s)"

text \<open>
  \<^verbatim>\<open>re.search\<close>: the first match at the leftmost position where there is one. The
  result stands for the match object, of which the code reads group 1 only.
\<close>

fun search_from :: "rx \<Rightarrow> bool \<Rightarrow> string \<Rightarrow> string option option" where
  "search_from r b [] =
     (case m r (St b [] None) of [] \<Rightarrow> None | s # _ \<Rightarrow> Some (grp s))"
| "search_from r b (x # xs) =
     (case m r (St b (x # xs) None) of
        [] \<Rightarrow> search_from r (x = nl) xs
      | s # _ \<Rightarrow> Some (grp s))"

definition re_search :: "rx \<Rightarrow> string \<Rightarrow> string option option" where
  "re_search r text = search_from r True text"

subsection \<open>Writing patterns\<close>

fun seq :: "rx list \<Rightarrow> rx" where
  "seq [] = Eps"
| "seq [r] = r"
| "seq (r # rs) = Cat r (seq rs)"

definition lit :: "string \<Rightarrow> rx" where
  "lit s = seq (map (\<lambda>c. Ch (Lit c)) s)"

definition plus :: "cls \<Rightarrow> rx" where
  "plus c = Cat (Ch c) (Star c)"

definition times :: "nat \<Rightarrow> cls \<Rightarrow> rx" where
  "times n c = seq (replicate n (Ch c))"

text \<open>The seventeen patterns of \<^verbatim>\<open>P1Packet.__init__\<close>, in its order.\<close>

definition header_rx :: rx where
  "header_rx = seq [Bol, Grp (Cat (Ch (Lit CHR ''/'')) (Star Dot)), Eol]"

definition kwh_eid_rx :: rx where
  "kwh_eid_rx = seq [Bol, lit ''0-0:96.1.1('', Grp (plus (NotCh CHR '')'')), lit '')'', Eol]"

definition kwh_tariff_rx :: rx where
  "kwh_tariff_rx = seq [Bol, lit ''0-0:96.14.0('', Grp (plus Digit), lit '')'', Eol]"

definition kwh_switch_rx :: rx where
  "kwh_switch_rx = seq [Bol, lit ''0-0:96.3.10('', Grp (Ch Digit), lit '')'', Eol]"

definition kwh_treshold_rx :: rx where
  "kwh_treshold_rx =
     seq [Bol, lit ''0-0:17.0.0('', Grp (seq [times 4 Digit, lit ''.'', times 2 Digit]),
          lit ''*kW)'', Eol]"

definition energy_rx :: "string \<Rightarrow> string \<Rightarrow> rx" where
  "energy_rx obis unit =
     seq [Bol, lit obis, lit ''('', Grp (seq [plus Digit, lit ''.'', plus Digit]),
          lit ''*'', lit unit, lit '')'', Eol]"

definition kwh_low_consumed_rx :: rx where
  "kwh_low_consumed_rx = energy_rx ''1-0:1.8.1'' ''kWh''"

definition kwh_low_produced_rx :: rx where
  "kwh_low_produced_rx = energy_rx ''1-0:2.8.1'' ''kWh''"

definition kwh_high_consumed_rx :: rx where
  "kwh_high_consumed_rx = energy_rx ''1-0:1.8.2'' ''kWh''"

definition kwh_high_produced_rx :: rx where
  "kwh_high_produced_rx = energy_rx ''1-0:2.8.2'' ''kWh''"

definition kwh_current_consumed_rx :: rx where
  "kwh_current_consumed_rx = energy_rx ''1-0:1.7.0'' ''kW''"

definition kwh_current_produced_rx :: rx where
  "kwh_current_produced_rx = energy_rx ''1-0:2.7.0'' ''kW''"

definition gas_eid_rx :: rx where
  "gas_eid_rx = seq [Bol, lit ''0-1:96.1.0('', Grp (plus (NotCh CHR '')'')), lit '')'', Eol]"

definition gas_device_type_rx :: rx where
  "gas_device_type_rx = seq [Bol, lit ''0-1:24.1.0('', GrpPlus Digit, lit '')'', Eol]"

definition gas_total_rx :: rx where
  "gas_total_rx =
     seq [Bol,
          Opt (seq [lit ''0-1:24.2.1'', Opt (seq [lit ''('', plus Digit, lit ''S)''])]),
          lit ''('', Grp (seq [times 5 Digit, lit ''.'', times 3 Digit]),
          Opt (lit ''*m3''), lit '')'', Eol]"

definition gas_valve_rx :: rx where
  "gas_valve_rx = seq [Bol, lit ''0-1:24.4.0('', Grp (Ch Digit), lit '')'', Eol]"

definition msg_code_rx :: rx where
  "msg_code_rx = seq [Bol, lit ''0-0:96.13.1('', Grp (plus Digit), lit '')'', Eol]"

definition msg_text_rx :: rx where
  "msg_text_rx = seq [Bol, lit ''0-0:96.13.0('', Grp (plus Dot), lit '')'', Eol]"

section \<open>Python values and conversions\<close>

text \<open>
  The leaves of the record are \<^verbatim>\<open>None\<close>, a string, an integer or a float. A float is
  modelled by the rational number its decimal text denotes; Python rounds that number
  to the nearest double, so equal rationals are equal floats.
\<close>

datatype pyval = PyNone | PyStr string | PyInt int | PyFloat rat

fun truthy :: "pyval \<Rightarrow> bool" where
  "truthy PyNone = False"
| "truthy (PyStr s) = (s \<noteq> [])"
| "truthy (PyInt n) = (n \<noteq> 0)"
| "truthy (PyFloat q) = (q \<noteq> 0)"

definition digit_val :: "char \<Rightarrow> nat" where
  "digit_val c = of_char c - 48"

definition digits_val :: "string \<Rightarrow> nat" where
  "digits_val s = foldl (\<lambda>a c. 10 * a + digit_val c) 0 s"

definition is_digits :: "string \<Rightarrow> bool" where
  "is_digits s \<longleftrightarrow> s \<noteq> [] \<and> list_all is_digit s"

definition decimal_val :: "string \<Rightarrow> string \<Rightarrow> rat" where
  "decimal_val a b = of_nat (digits_val a) + of_nat (digits_val b) / 10 ^ length b"

text \<open>
  \<^verbatim>\<open>int(x)\<close> and \<^verbatim>\<open>float(x)\<close>; \<open>None\<close> is the \<^verbatim>\<open>ValueError\<close> or \<^verbatim>\<open>TypeError\<close> they
  raise. On strings the model accepts plain digits (with one dot and digits on both
  sides of it for a float) and refuses everything else; Python accepts more (signs,
  blanks, exponents), so a conversion that succeeds here succeeds there. \<^verbatim>\<open>int\<close> of a
  string raises \<^verbatim>\<open>ValueError\<close> when the string has more digits than the interpreter's
  limit, leading zeros counted; the limit is 4300 unless the interpreter is told
  otherwise (\<^verbatim>\<open>sys.int_info.default_max_str_digits\<close>). \<^verbatim>\<open>float\<close> has no such limit.
\<close>

definition int_max_str_digits :: nat where
  "int_max_str_digits = 4300"

fun py_int :: "pyval \<Rightarrow> pyval option" where
  "py_int PyNone = None"
| "py_int (PyStr s) =
     (if is_digits s \<and> length s \<le> int_max_str_digits
      then Some (PyInt (int (digits_val s))) else None)"
| "py_int (PyInt n) = Some (PyInt n)"
| "py_int (PyFloat q) = Some (PyInt (if 0 \<le> q then \<lfloor>q\<rfloor> else \<lceil>q\<rceil>))"

fun py_float :: "pyval \<Rightarrow> pyval option" where
  "py_float PyNone = None"
| "py_float (PyStr s) =
     (let a = takeWhile (\<lambda>c. c \<noteq> CHR ''.'') s; r = dropWhile (\<lambda>c. c \<noteq> CHR ''.'') s
      in case r of
           [] \<Rightarrow> if is_digits a then Some (PyFloat (of_nat (digits_val a))) else None
         | _ # b \<Rightarrow> if is_digits a \<and> is_digits b then Some (PyFloat (decimal_val a b))
                    else None)"
| "py_float (PyInt n) = Some (PyFloat (of_int n))"
| "py_float (PyFloat q) = Some (PyFloat q)"

section \<open>P1Packet\<close>

fun join_nl :: "string list \<Rightarrow> string" where
  "join_nl [] = []"
| "join_nl [l] = l"
| "join_nl (l # ls) = l @ nl # join_nl ls"

text \<open>The argument of the constructor: a list of lines or a string.\<close>

datatype pydata = PyList "string list" | PyText string

text \<open>
  The object under construction. The class carries \<^verbatim>\<open>_raw = ''\<close>, which every
  instance shares until it assigns its own \<^verbatim>\<open>_raw\<close>; reading \<^verbatim>\<open>self._raw\<close> takes the
  instance's attribute when it is set and the class's otherwise.
\<close>

record self_obj =
  class_raw :: string
  inst_raw :: "string option"

definition raw_attr :: "self_obj \<Rightarrow> string" where
  "raw_attr self = (case inst_raw self of Some r \<Rightarrow> r | None \<Rightarrow> class_raw self)"

definition get :: "self_obj \<Rightarrow> rx \<Rightarrow> pyval \<Rightarrow> pyval" where
  "get self regex dflt =
     (case re_search regex (raw_attr self) of
        None \<Rightarrow> dflt
      | Some g \<Rightarrow> (case g of None \<Rightarrow> PyNone | Some w \<Rightarrow> PyStr w))"

definition get_float :: "self_obj \<Rightarrow> rx \<Rightarrow> pyval \<Rightarrow> pyval option" where
  "get_float self regex dflt =
     (let result = get self regex PyNone
      in if \<not> truthy result then Some dflt
         else py_float (get self regex dflt))"

definition get_int :: "self_obj \<Rightarrow> rx \<Rightarrow> pyval \<Rightarrow> pyval option" where
  "get_int self regex dflt =
     (let result = get self regex PyNone
      in if \<not> truthy result then Some dflt
         else py_int result)"

record tariff_keys =
  consumed :: pyval
  produced :: pyval

record kwh_keys =
  kwh_eid :: pyval
  tariff :: pyval
  switch :: pyval
  treshold :: pyval
  low :: tariff_keys
  high :: tariff_keys
  current_consumed :: pyval
  current_produced :: pyval

record gas_keys =
  gas_eid :: pyval
  device_type :: pyval
  total :: pyval
  valve :: pyval

record msg_keys =
  code :: pyval
  text_ :: pyval

record keys =
  header :: pyval
  kwh :: kwh_keys
  gas :: gas_keys
  msg :: msg_keys

record P1Packet =
  raw :: string
  packet_keys :: keys

text \<open>
  \<^verbatim>\<open>P1Packet.__init__\<close>, given the value of the class attribute at the call. \<open>None\<close>
  is an exception raised by \<^verbatim>\<open>int\<close> or \<^verbatim>\<open>float\<close>, which nothing in the class catches.
\<close>

definition P1Packet_init :: "string \<Rightarrow> pydata \<Rightarrow> P1Packet option" where
  "P1Packet_init cls_raw data =
     (let self = \<lparr>class_raw = cls_raw,
                  inst_raw = Some (case data of PyList ls \<Rightarrow> join_nl ls | PyText s \<Rightarrow> s)\<rparr>;
          k_header = get self header_rx (PyStr [])
      in do {
        let k_eid = get self kwh_eid_rx PyNone;
        k_tariff \<leftarrow> get_int self kwh_tariff_rx PyNone;
        k_switch \<leftarrow> get_int self kwh_switch_rx PyNone;
        k_treshold \<leftarrow> get_float self kwh_treshold_rx PyNone;
        low_consumed \<leftarrow> get_float self kwh_low_consumed_rx PyNone;
        low_produced \<leftarrow> get_float self kwh_low_produced_rx PyNone;
        high_consumed \<leftarrow> get_float self kwh_high_consumed_rx PyNone;
        high_produced \<leftarrow> get_float self kwh_high_produced_rx PyNone;
        k_current_consumed \<leftarrow> get_float self kwh_current_consumed_rx PyNone;
        k_current_produced \<leftarrow> get_float self kwh_current_produced_rx PyNone;
        let g_eid = get self gas_eid_rx PyNone;
        g_device_type \<leftarrow> get_int self gas_device_type_rx PyNone;
        g_total \<leftarrow> get_float self gas_total_rx (PyInt 0);
        g_valve \<leftarrow> get_int self gas_valve_rx PyNone;
        let m_code = get self msg_code_rx PyNone;
        let m_text = get self msg_text_rx PyNone;
        Some \<lparr>raw = raw_attr self,
              packet_keys = \<lparr>header = k_header,
                kwh = \<lparr>kwh_eid = k_eid, tariff = k_tariff, switch = k_switch,
                       treshold = k_treshold,
                       low = \<lparr>consumed = low_consumed, produced = low_produced\<rparr>,
                       high = \<lparr>consumed = high_consumed, produced = high_produced\<rparr>,
                       current_consumed = k_current_consumed,
                       current_produced = k_current_produced\<rparr>,
                gas = \<lparr>gas_eid = g_eid, device_type = g_device_type, total = g_total,
                       valve = g_valve\<rparr>,
                msg = \<lparr>code = m_code, text_ = m_text\<rparr>\<rparr>\<rparr>
      })"

text \<open>\<^verbatim>\<open>P1Packet(data)\<close> with the class as the file declares it; \<^verbatim>\<open>str(p)\<close>.\<close>

definition new_P1Packet :: "pydata \<Rightarrow> P1Packet option" where
  "new_P1Packet data = P1Packet_init [] data"

definition str_of :: "P1Packet \<Rightarrow> string" where
  "str_of p = raw p"

section \<open>SmartMeter.read_one_packet\<close>

definition starts_with :: "string \<Rightarrow> string \<Rightarrow> bool" where
  "starts_with p s \<longleftrightarrow> take (length p) s = p"

definition ends_with :: "string \<Rightarrow> string \<Rightarrow> bool" where
  "ends_with e s \<longleftrightarrow> length e \<le> length s \<and> drop (length s - length e) s = e"

text \<open>\<^verbatim>\<open>strip()\<close> of a byte string: blanks, tabs, line ends, vertical tabs and form feeds.\<close>

definition is_space :: "char \<Rightarrow> bool" where
  "is_space c \<longleftrightarrow> c \<in> set [CHR 0x20, CHR 0x09, CHR 0x0A, CHR 0x0D, CHR 0x0B, CHR 0x0C]"

definition strip :: "string \<Rightarrow> string" where
  "strip s = rev (dropWhile is_space (rev (dropWhile is_space s)))"

text \<open>
  What one pass through the \<^verbatim>\<open>try\<close> block gives: the line that \<^verbatim>\<open>readline\<close> returned,
  or an exception (the port failed, or the bytes are not UTF-8), which the handler
  turns into \<^verbatim>\<open>SmartMeterError\<close>. The serial port is a sequence of such events; the
  loop reads the event numbered \<open>lines_read\<close>.
\<close>

datatype event = Line string | Fail

datatype error = TransportError | StuckInLoop nat | ConversionError

record loopstate =
  lines :: "string list"
  lines_read :: nat
  complete_packet :: bool
  max_lines :: nat

definition initial :: loopstate where
  "initial = \<lparr>lines = [], lines_read = 0, complete_packet = False, max_lines = 35\<rparr>"

text \<open>The \<^verbatim>\<open>else\<close> branch of the \<^verbatim>\<open>try\<close> up to the completion test (lines 79 to 89).\<close>

definition absorb :: "string \<Rightarrow> loopstate \<Rightarrow> loopstate" where
  "absorb line st =
     (let st1 = st\<lparr>lines_read := lines_read st + 1\<rparr>;
          st2 = (if starts_with ''/ISk5'' line
                 then (let a = (if ends_with ''1003'' line then st1\<lparr>max_lines := 13\<rparr> else st1);
                           b = (if ends_with ''1004'' line then a\<lparr>max_lines := 19\<rparr> else a)
                       in b\<lparr>lines := [line]\<rparr>)
                 else st1\<lparr>lines := lines st1 @ [line]\<rparr>)
      in if starts_with ''!'' line \<and> length (lines st2) > max_lines st2
         then st2\<lparr>complete_packet := True\<rparr> else st2)"

text \<open>The whole \<^verbatim>\<open>else\<close> branch: the guard of lines 90 and 91 comes last.\<close>

definition step :: "string \<Rightarrow> loopstate \<Rightarrow> error + loopstate" where
  "step line st =
     (let st' = absorb line st
      in if length (lines st') > max_lines st' * 2 + 2
         then Inl (StuckInLoop (length (lines st')))
         else Inr st')"

text \<open>
  The \<^verbatim>\<open>while\<close> loop. It has no bound of its own, so the result is an option:
  \<open>None\<close> when the loop runs forever.
\<close>

partial_function (option) read_loop ::
  "(nat \<Rightarrow> event) \<Rightarrow> loopstate \<Rightarrow> (error + string list) option" where
  "read_loop port st =
     (if complete_packet st then Some (Inr (lines st))
      else case port (lines_read st) of
             Fail \<Rightarrow> Some (Inl TransportError)
           | Line l \<Rightarrow>
               (case step (strip l) st of
                  Inl e \<Rightarrow> Some (Inl e)
                | Inr st' \<Rightarrow> read_loop port st'))"

definition read_one_packet :: "(nat \<Rightarrow> event) \<Rightarrow> (error + P1Packet) option" where
  "read_one_packet port =
     (case read_loop port initial of
        None \<Rightarrow> None
      | Some (Inl e) \<Rightarrow> Some (Inl e)
      | Some (Inr ls) \<Rightarrow>
          (case new_P1Packet (PyText (join_nl ls)) of
             None \<Rightarrow> Some (Inl ConversionError)
           | Some p \<Rightarrow> Some (Inr p)))"

section \<open>What a match can consume and capture\<close>

text \<open>
  An upper bound of the words a pattern consumes, and of the contents group 1 can have
  after it.
\<close>

fun shape :: "rx \<Rightarrow> string set" where
  "shape Eps = {[]}"
| "shape Bol = {[]}"
| "shape Eol = {[]}"
| "shape (Ch c) = {[x] | x. in_cls c x}"
| "shape (Star c) = {w. \<forall>x\<in>set w. in_cls c x}"
| "shape (GrpPlus c) = {w. w \<noteq> [] \<and> (\<forall>x\<in>set w. in_cls c x)}"
| "shape (Cat a b) = {u @ v | u v. u \<in> shape a \<and> v \<in> shape b}"
| "shape (Opt a) = insert [] (shape a)"
| "shape (Grp a) = shape a"

fun caps :: "rx \<Rightarrow> string set" where
  "caps (GrpPlus c) = {[x] | x. in_cls c x}"
| "caps (Cat a b) = caps a \<union> caps b"
| "caps (Opt a) = caps a"
| "caps (Grp a) = shape a"
| "caps _ = {}"

text \<open>Patterns whose capture always converts.\<close>

definition int_shaped :: "rx \<Rightarrow> bool" where
  "int_shaped r \<longleftrightarrow> (\<forall>w\<in>caps r. is_digits w)"

definition float_shaped :: "rx \<Rightarrow> bool" where
  "float_shaped r \<longleftrightarrow> (\<forall>w\<in>caps r. \<exists>a b. w = a @ CHR ''.'' # b \<and> is_digits a \<and> is_digits b)"

definition digit_shaped :: "rx \<Rightarrow> bool" where
  "digit_shaped r \<longleftrightarrow> (\<forall>w\<in>caps r. \<exists>x. w = [x] \<and> is_digit x)"

fun always_caps :: "rx \<Rightarrow> bool" where
  "always_caps (Grp a) = True"
| "always_caps (GrpPlus c) = True"
| "always_caps (Cat a b) = (always_caps a \<or> always_caps b)"
| "always_caps _ = False"

section \<open>The rule table, as the specification words it\<close>

text \<open>
  Each rule scans the whole text for the first match of its pattern and yields the
  captured text (as it is, as an integer, or as a decimal number), or the rule's
  default when nothing matches.
\<close>

definition decimal_of :: "string \<Rightarrow> rat" where
  "decimal_of w =
     decimal_val (takeWhile (\<lambda>c. c \<noteq> CHR ''.'') w) (drop 1 (dropWhile (\<lambda>c. c \<noteq> CHR ''.'') w))"

definition str_rule :: "rx \<Rightarrow> pyval \<Rightarrow> string \<Rightarrow> pyval" where
  "str_rule r dflt txt =
     (case re_search r txt of Some (Some w) \<Rightarrow> PyStr w | _ \<Rightarrow> dflt)"

definition int_rule :: "rx \<Rightarrow> pyval \<Rightarrow> string \<Rightarrow> pyval" where
  "int_rule r dflt txt =
     (case re_search r txt of Some (Some w) \<Rightarrow> PyInt (int (digits_val w)) | _ \<Rightarrow> dflt)"

definition float_rule :: "rx \<Rightarrow> pyval \<Rightarrow> string \<Rightarrow> pyval" where
  "float_rule r dflt txt =
     (case re_search r txt of Some (Some w) \<Rightarrow> PyFloat (decimal_of w) | _ \<Rightarrow> dflt)"

definition rule_table :: "string \<Rightarrow> keys" where
  "rule_table txt =
     \<lparr>header = str_rule header_rx (PyStr []) txt,
      kwh = \<lparr>kwh_eid = str_rule kwh_eid_rx PyNone txt,
             tariff = int_rule kwh_tariff_rx PyNone txt,
             switch = int_rule kwh_switch_rx PyNone txt,
             treshold = float_rule kwh_treshold_rx PyNone txt,
             low = \<lparr>consumed = float_rule kwh_low_consumed_rx PyNone txt,
                    produced = float_rule kwh_low_produced_rx PyNone txt\<rparr>,
             high = \<lparr>consumed = float_rule kwh_high_consumed_rx PyNone txt,
                     produced = float_rule kwh_high_produced_rx PyNone txt\<rparr>,
             current_consumed = float_rule kwh_current_consumed_rx PyNone txt,
             current_produced = float_rule kwh_current_produced_rx PyNone txt\<rparr>,
      gas = \<lparr>gas_eid = str_rule gas_eid_rx PyNone txt,
             device_type = int_rule gas_device_type_rx PyNone txt,
             total = float_rule gas_total_rx (PyInt 0) txt,
             valve = int_rule gas_valve_rx PyNone txt\<rparr>,
      msg = \<lparr>code = str_rule msg_code_rx PyNone txt,
             text_ = str_rule msg_text_rx PyNone txt\<rparr>\<rparr>"

definition text_of :: "pydata \<Rightarrow> string" where
  "text_of data = (case data of PyList ls \<Rightarrow> join_nl ls | PyText s \<Rightarrow> s)"

text \<open>
  The tariff is the one integer rule whose capture has no fixed length. The text keeps
  within the limit of \<^verbatim>\<open>int\<close> when the first match of the tariff pattern, if there is
  one, captures no more digits than the limit.
\<close>

definition tariff_within_limit :: "string \<Rightarrow> bool" where
  "tariff_within_limit txt \<longleftrightarrow>
     (case re_search kwh_tariff_rx txt of
        Some (Some w) \<Rightarrow> length w \<le> int_max_str_digits
      | _ \<Rightarrow> True)"

section \<open>Ports used as examples\<close>

text \<open>
  A header, body lines up to (and without) line number \<open>n\<close>, then footers for ever.
\<close>

definition telegram_port :: "string \<Rightarrow> nat \<Rightarrow> nat \<Rightarrow> event" where
  "telegram_port hdr n i = (if i = 0 then Line hdr else if i < n then Line ''x'' else Line ''!'')"

text \<open>A port that sends the bare header signature for ever.\<close>

definition header_port :: "nat \<Rightarrow> event" where
  "header_port i = Line ''/ISk5''"

section \<open>Lines of a text\<close>

text \<open>The lines of a text, as \<^verbatim>\<open>text.split('\n')\<close> gives them.\<close>

fun lines_of :: "string \<Rightarrow> string list" where
  "lines_of [] = [[]]"
| "lines_of (x # xs) =
     (if x = nl then [] # lines_of xs
      else (case lines_of xs of [] \<Rightarrow> [[x]] | l # ls \<Rightarrow> (x # l) # ls))"

text \<open>
  A line matches a pattern when the pattern matches the line standing alone, from its
  first character; the result is group 1 of the first way to match. The first line of
  a list that matches gives the match of the list.
\<close>

definition line_match :: "rx \<Rightarrow> string \<Rightarrow> string option option" where
  "line_match r l = (case m r (St True l None) of [] \<Rightarrow> None | s # _ \<Rightarrow> Some (grp s))"

definition matches :: "rx \<Rightarrow> string \<Rightarrow> bool" where
  "matches r l \<longleftrightarrow> line_match r l \<noteq> None"

definition first_line_match :: "rx \<Rightarrow> string list \<Rightarrow> string option option" where
  "first_line_match r ls = (case find (matches r) ls of None \<Rightarrow> None | Some l \<Rightarrow> line_match r l)"

text \<open>
  Patterns that begin with \<^verbatim>\<open>^\<close>, and patterns none of whose classes admits a newline:
  these match inside one line only.
\<close>

fun anchored :: "rx \<Rightarrow> bool" where
  "anchored (Cat Bol r) = True"
| "anchored _ = False"

fun nl_free :: "rx \<Rightarrow> bool" where
  "nl_free (Ch c) = (\<not> in_cls c nl)"
| "nl_free (Star c) = (\<not> in_cls c nl)"
| "nl_free (GrpPlus c) = (\<not> in_cls c nl)"
| "nl_free (Cat a b) = (nl_free a \<and> nl_free b)"
| "nl_free (Opt a) = nl_free a"
| "nl_free (Grp a) = nl_free a"
| "nl_free _ = True"

definition add_suffix :: "string \<Rightarrow> mst \<Rightarrow> mst" where
  "add_suffix v s = St (at_bol s) (rest s @ v) (grp s)"

section \<open>Telegrams used as examples\<close>

text \<open>The telegram of the end-to-end scenario, line by line.\<close>

definition scenario :: "string list" where
  "scenario =
     [''/ISk5'' @ [CHR 0x5C] @ ''2ME382-1004'',
      ''1-0:1.8.1(0608.400*kWh)'',
      ''1-0:2.8.2(0490.342*kWh)'',
      ''0-0:96.14.0(0001)'',
      ''1-0:1.7.0(0001.51*kW)'',
      ''1-0:2.7.0(0000.00*kW)'',
      ''0-0:17.0.0(0999.00*kW)'',
      ''0-0:96.3.10(1)'',
      ''(00947.680)'',
      ''0-1:24.4.0(1)'',
      ''!'']"

text \<open>The same telegram with a second tariff line, of value 2, after the header.\<close>

definition two_tariffs :: "string list" where
  "two_tariffs = hd scenario # ''0-0:96.14.0(0002)'' # tl scenario"

text \<open>A telegram of one line: a tariff line of 4301 digits.\<close>

definition many_ones :: string where
  "many_ones = replicate 4301 CHR ''1''"

definition long_tariff :: string where
  "long_tariff = ''0-0:96.14.0('' @ many_ones @ '')''"

text \<open>Two bare gas-total lines.\<close>

definition two_gas_totals :: string where
  "two_gas_totals = join_nl [''(00001.000)'', ''(00002.000)'']"

section \<open>Properties\<close>

lemma star_shape:
  "s' \<in> set (star c b xs g) \<Longrightarrow> \<exists>w. (\<forall>x\<in>set w. in_cls c x) \<and> xs = w @ rest s' \<and> grp s' = g"
proof (induction xs arbitrary: b)
  case Nil
  then show ?case by simp
next
  case (Cons x xs)
  show ?case
  proof (cases "s' = St b (x # xs) g")
    case True
    then show ?thesis by simp
  next
    case False
    with Cons.prems have c: "in_cls c x" and "s' \<in> set (star c (x = nl) xs g)"
      by (auto split: if_splits)
    from Cons.IH[OF this(2)] obtain w where
      "\<forall>x\<in>set w. in_cls c x" "xs = w @ rest s'" "grp s' = g" by blast
    with c have "(\<forall>y\<in>set (x # w). in_cls c y) \<and> x # xs = (x # w) @ rest s' \<and> grp s' = g"
      by simp
    then show ?thesis by blast
  qed
qed

lemma grp_plus_shape:
  "s' \<in> set (grp_plus c xs) \<Longrightarrow>
     \<exists>w x. (\<forall>y\<in>set w. in_cls c y) \<and> in_cls c x \<and> xs = w @ x # rest s' \<and> grp s' = Some [x]"
proof (induction xs)
  case Nil
  then show ?case by simp
next
  case (Cons x xs)
  from Cons.prems have c: "in_cls c x" by (auto split: if_splits)
  show ?case
  proof (cases "s' = St (x = nl) xs (Some [x])")
    case True
    with c have "(\<forall>y\<in>set []. in_cls c y) \<and> in_cls c x \<and> x # xs = [] @ x # rest s' \<and> grp s' = Some [x]"
      by simp
    then show ?thesis by blast
  next
    case False
    with Cons.prems c have "s' \<in> set (grp_plus c xs)" by simp
    from Cons.IH[OF this] obtain w y where
      "\<forall>z\<in>set w. in_cls c z" "in_cls c y" "xs = w @ y # rest s'" "grp s' = Some [y]" by blast
    with c have "(\<forall>z\<in>set (x # w). in_cls c z) \<and> in_cls c y \<and> x # xs = (x # w) @ y # rest s' \<and> grp s' = Some [y]"
      by simp
    then show ?thesis by blast
  qed
qed

lemma m_shape: "s' \<in> set (m r s) \<Longrightarrow> \<exists>w\<in>shape r. rest s = w @ rest s'"
proof (induction r arbitrary: s s')
  case (Ch c)
  then show ?case by (auto split: list.splits if_splits)
next
  case (Star c)
  then show ?case using star_shape[of s' c "at_bol s" "rest s" "grp s"] by auto
next
  case (GrpPlus c)
  from grp_plus_shape[of s' c "rest s"] GrpPlus obtain w x where
    h: "\<forall>y\<in>set w. in_cls c y" "in_cls c x" "rest s = w @ x # rest s'" by auto
  then have "w @ [x] \<in> shape (GrpPlus c) \<and> rest s = (w @ [x]) @ rest s'" by auto
  then show ?case by blast
next
  case (Cat a b)
  then obtain s1 where s1: "s1 \<in> set (m a s)" "s' \<in> set (m b s1)" by auto
  from Cat.IH(1)[OF s1(1)] obtain u where u: "u \<in> shape a" "rest s = u @ rest s1" by blast
  from Cat.IH(2)[OF s1(2)] obtain v where v: "v \<in> shape b" "rest s1 = v @ rest s'" by blast
  from u v have "u @ v \<in> shape (Cat a b) \<and> rest s = (u @ v) @ rest s'" by auto
  then show ?case by blast
next
  case (Opt a)
  then show ?case by auto
next
  case (Grp a)
  then obtain s1 where s1: "s1 \<in> set (m a s)" "rest s' = rest s1" by auto
  from Grp.IH[OF s1(1)] s1(2) show ?case by auto
qed (auto split: list.splits if_splits)

lemma m_caps: "s' \<in> set (m r s) \<Longrightarrow> grp s' = grp s \<or> (\<exists>w\<in>caps r. grp s' = Some w)"
proof (induction r arbitrary: s s')
  case (Ch c)
  then show ?case by (auto split: list.splits if_splits)
next
  case (Star c)
  then show ?case using star_shape[of s' c "at_bol s" "rest s" "grp s"] by auto
next
  case (GrpPlus c)
  from grp_plus_shape[of s' c "rest s"] GrpPlus show ?case by auto
next
  case (Cat a b)
  then obtain s1 where s1: "s1 \<in> set (m a s)" "s' \<in> set (m b s1)" by auto
  from Cat.IH(1)[OF s1(1)] Cat.IH(2)[OF s1(2)] show ?case by auto
next
  case (Opt a)
  then show ?case by auto
next
  case (Grp a)
  then obtain s1 where s1: "s1 \<in> set (m a s)"
    "grp s' = Some (take (length (rest s) - length (rest s1)) (rest s))" by auto
  from m_shape[OF s1(1)] obtain w where "w \<in> shape a" "rest s = w @ rest s1" by blast
  with s1(2) show ?case by auto
qed (auto split: list.splits if_splits)

lemma search_from_caps:
  "search_from r b t = Some g \<Longrightarrow> g = None \<or> (\<exists>w\<in>caps r. g = Some w)"
proof (induction t arbitrary: b)
  case Nil
  then obtain s' ss where "m r (St b [] None) = s' # ss" "g = grp s'"
    by (auto split: list.splits)
  then show ?case using m_caps[of s' r "St b [] None"] by auto
next
  case (Cons x xs)
  show ?case
  proof (cases "m r (St b (x # xs) None)")
    case Nil
    with Cons show ?thesis by simp
  next
    case (Cons s' ss)
    with Cons.prems have "g = grp s'" by simp
    then show ?thesis using m_caps[of s' r "St b (x # xs) None"] Cons by auto
  qed
qed

lemma caps_lit [simp]: "caps (lit s) = {}"
  unfolding lit_def by (induction s rule: induct_list012) auto

lemma shape_lit [simp]: "shape (lit s) = {s}"
  unfolding lit_def by (induction s rule: induct_list012) auto

lemma Ch_then_iff:
  "w \<in> {u @ v | u v. u \<in> shape (Ch c) \<and> v \<in> S} \<longleftrightarrow>
     (\<exists>x v. w = x # v \<and> in_cls c x \<and> v \<in> S)"
proof
  assume "w \<in> {u @ v | u v. u \<in> shape (Ch c) \<and> v \<in> S}"
  then obtain u v where "w = u @ v" "u \<in> shape (Ch c)" "v \<in> S" by blast
  then show "\<exists>x v. w = x # v \<and> in_cls c x \<and> v \<in> S" by auto
next
  assume "\<exists>x v. w = x # v \<and> in_cls c x \<and> v \<in> S"
  then obtain x v where "w = [x] @ v" "[x] \<in> shape (Ch c)" "v \<in> S" by auto
  then show "w \<in> {u @ v | u v. u \<in> shape (Ch c) \<and> v \<in> S}" by blast
qed

lemma shape_plus [simp]: "shape (plus c) = {w. w \<noteq> [] \<and> (\<forall>x\<in>set w. in_cls c x)}"
proof -
  have "w \<in> shape (plus c) \<longleftrightarrow> w \<noteq> [] \<and> (\<forall>x\<in>set w. in_cls c x)" for w
    unfolding plus_def shape.simps(7) Ch_then_iff by (cases w) auto
  then show ?thesis by blast
qed

lemma caps_plus [simp]: "caps (plus c) = {}"
  by (simp add: plus_def)

lemma shape_seq_Cons: "shape (seq (r # rs)) = {u @ v | u v. u \<in> shape r \<and> v \<in> shape (seq rs)}"
  by (cases rs) auto

lemma caps_seq_Cons: "caps (seq (r # rs)) = caps r \<union> caps (seq rs)"
  by (cases rs) auto

lemma shape_replicate:
  "shape (seq (replicate n (Ch c))) = {w. length w = n \<and> (\<forall>x\<in>set w. in_cls c x)}"
proof (induction n)
  case 0
  then show ?case by auto
next
  case (Suc n)
  have "w \<in> shape (seq (replicate (Suc n) (Ch c))) \<longleftrightarrow>
          length w = Suc n \<and> (\<forall>x\<in>set w. in_cls c x)" for w
    unfolding replicate_Suc shape_seq_Cons Ch_then_iff Suc
    by (cases w) auto
  then show ?case by blast
qed

lemma shape_times [simp]: "shape (times n c) = {w. length w = n \<and> (\<forall>x\<in>set w. in_cls c x)}"
  unfolding times_def by (rule shape_replicate)

lemma caps_times [simp]: "caps (times n c) = {}"
  unfolding times_def by (induction n) (auto simp: caps_seq_Cons)

lemma int_shaped_tariff: "int_shaped kwh_tariff_rx"
  unfolding int_shaped_def kwh_tariff_rx_def
  by (auto simp: is_digits_def list_all_iff)

lemma digit_shaped_switch: "digit_shaped kwh_switch_rx"
  unfolding digit_shaped_def kwh_switch_rx_def by auto

lemma digit_shaped_device_type: "digit_shaped gas_device_type_rx"
  unfolding digit_shaped_def gas_device_type_rx_def by auto

lemma digit_shaped_valve: "digit_shaped gas_valve_rx"
  unfolding digit_shaped_def gas_valve_rx_def by auto

lemma float_shapedI:
  "(\<And>w. w \<in> caps r \<Longrightarrow> \<exists>a b. w = a @ CHR ''.'' # b \<and> is_digits a \<and> is_digits b) \<Longrightarrow> float_shaped r"
  unfolding float_shaped_def by blast

lemma float_shaped_energy: "float_shaped (energy_rx obis unit)"
proof (rule float_shapedI)
  fix w assume "w \<in> caps (energy_rx obis unit)"
  then obtain a b where "w = a @ CHR ''.'' # b" "a \<noteq> []" "\<forall>x\<in>set a. is_digit x"
      "b \<noteq> []" "\<forall>x\<in>set b. is_digit x"
    unfolding energy_rx_def by auto
  then show "\<exists>a b. w = a @ CHR ''.'' # b \<and> is_digits a \<and> is_digits b"
    unfolding is_digits_def list_all_iff by blast
qed

lemma float_shaped_treshold: "float_shaped kwh_treshold_rx"
proof (rule float_shapedI)
  fix w assume "w \<in> caps kwh_treshold_rx"
  then obtain a b where "w = a @ CHR ''.'' # b" "length a = 4" "\<forall>x\<in>set a. is_digit x"
      "length b = 2" "\<forall>x\<in>set b. is_digit x"
    unfolding kwh_treshold_rx_def by auto
  moreover from this have "a \<noteq> []" "b \<noteq> []" by auto
  ultimately show "\<exists>a b. w = a @ CHR ''.'' # b \<and> is_digits a \<and> is_digits b"
    unfolding is_digits_def list_all_iff by blast
qed

lemma float_shaped_gas_total: "float_shaped gas_total_rx"
proof (rule float_shapedI)
  fix w assume "w \<in> caps gas_total_rx"
  then obtain a b where "w = a @ CHR ''.'' # b" "length a = 5" "\<forall>x\<in>set a. is_digit x"
      "length b = 3" "\<forall>x\<in>set b. is_digit x"
    unfolding gas_total_rx_def by auto
  moreover from this have "a \<noteq> []" "b \<noteq> []" by auto
  ultimately show "\<exists>a b. w = a @ CHR ''.'' # b \<and> is_digits a \<and> is_digits b"
    unfolding is_digits_def list_all_iff by blast
qed

lemma m_keeps_grp: "s' \<in> set (m r s) \<Longrightarrow> grp s \<noteq> None \<Longrightarrow> grp s' \<noteq> None"
  using m_caps[of s' r s] by auto

lemma m_always_caps: "always_caps r \<Longrightarrow> s' \<in> set (m r s) \<Longrightarrow> grp s' \<noteq> None"
proof (induction r arbitrary: s s')
  case (GrpPlus c)
  then show ?case using grp_plus_shape[of s' c "rest s"] by auto
next
  case (Cat a b)
  from Cat.prems(2) obtain s1 where s1: "s1 \<in> set (m a s)" "s' \<in> set (m b s1)" by auto
  show ?case
  proof (cases "always_caps a")
    case True
    from Cat.IH(1)[OF True s1(1)] m_keeps_grp[OF s1(2)] show ?thesis by blast
  next
    case False
    with Cat.prems(1) have "always_caps b" by simp
    from Cat.IH(2)[OF this s1(2)] show ?thesis .
  qed
qed auto

lemma search_from_always_caps:
  "always_caps r \<Longrightarrow> search_from r b t \<noteq> Some None"
proof (induction t arbitrary: b)
  case Nil
  show ?case
  proof (cases "m r (St b [] None)")
    case (Cons s' ss)
    then show ?thesis using m_always_caps[OF Nil, of s' "St b [] None"] by auto
  qed simp
next
  case (Cons x xs)
  show ?case
  proof (cases "m r (St b (x # xs) None)")
    case Nil
    then show ?thesis using Cons by simp
  next
    case (Cons s' ss)
    then show ?thesis using m_always_caps[OF Cons.prems, of s' "St b (x # xs) None"] by auto
  qed
qed

lemma re_search_cases:
  obtains (no_match) "re_search r t = None"
  | (no_group) "re_search r t = Some None"
  | (captured) w where "re_search r t = Some (Some w)" "w \<in> caps r"
proof (cases "re_search r t")
  case None
  then show ?thesis using no_match by simp
next
  case (Some g)
  then show ?thesis
    using search_from_caps[of r True t g] no_group captured
    unfolding re_search_def by auto
qed

lemma get_str_rule_None: "get self r PyNone = str_rule r PyNone (raw_attr self)"
  unfolding get_def str_rule_def by (auto split: option.splits)

lemma get_str_rule: "always_caps r \<Longrightarrow> get self r d = str_rule r d (raw_attr self)"
  unfolding get_def str_rule_def re_search_def
  using search_from_always_caps[of r True "raw_attr self"]
  by (auto split: option.splits)

lemma get_int_cases:
  assumes "int_shaped r"
  shows "get_int self r d =
     (case re_search r (raw_attr self) of
        Some (Some w) \<Rightarrow>
          if length w \<le> int_max_str_digits then Some (PyInt (int (digits_val w))) else None
      | _ \<Rightarrow> Some d)"
proof (cases r "raw_attr self" rule: re_search_cases)
  case (captured w)
  with assms have "is_digits w" unfolding int_shaped_def by blast
  moreover from this have "w \<noteq> []" unfolding is_digits_def by simp
  ultimately show ?thesis using captured
    unfolding get_int_def get_def by simp
qed (simp_all add: get_int_def get_def)

lemma get_int_digit:
  assumes "digit_shaped r"
  shows "get_int self r d = Some (int_rule r d (raw_attr self))"
proof (cases r "raw_attr self" rule: re_search_cases)
  case (captured w)
  with assms obtain x where "w = [x]" "is_digit x" unfolding digit_shaped_def by blast
  with captured show ?thesis
    unfolding get_int_def get_def int_rule_def
    by (simp add: is_digits_def int_max_str_digits_def)
qed (simp_all add: get_int_def get_def int_rule_def)

lemma get_int_tariff:
  "get_int self kwh_tariff_rx d =
     (if tariff_within_limit (raw_attr self)
      then Some (int_rule kwh_tariff_rx d (raw_attr self)) else None)"
  unfolding get_int_cases[OF int_shaped_tariff] tariff_within_limit_def int_rule_def
  by (simp split: option.splits)

lemma is_digit_not_dot: "is_digit x \<Longrightarrow> x \<noteq> CHR ''.''"
  unfolding is_digit_def by auto

lemma py_float_decimal:
  assumes "is_digits a" "is_digits b"
  shows "py_float (PyStr (a @ CHR ''.'' # b)) = Some (PyFloat (decimal_val a b))"
    and "decimal_of (a @ CHR ''.'' # b) = decimal_val a b"
proof -
  from assms(1) have nd: "\<forall>x\<in>set a. x \<noteq> CHR ''.''"
    unfolding is_digits_def list_all_iff using is_digit_not_dot by blast
  then have tw: "takeWhile (\<lambda>c. c \<noteq> CHR ''.'') (a @ CHR ''.'' # b) = a"
    by (simp add: takeWhile_append2)
  from nd have dw: "dropWhile (\<lambda>c. c \<noteq> CHR ''.'') (a @ CHR ''.'' # b) = CHR ''.'' # b"
    by (simp add: dropWhile_append2)
  show "py_float (PyStr (a @ CHR ''.'' # b)) = Some (PyFloat (decimal_val a b))"
    using assms by (simp only: py_float.simps tw dw Let_def) simp
  show "decimal_of (a @ CHR ''.'' # b) = decimal_val a b"
    unfolding decimal_of_def by (simp only: tw dw) simp
qed

lemma get_float_rule:
  assumes "float_shaped r"
  shows "get_float self r d = Some (float_rule r d (raw_attr self))"
proof (cases r "raw_attr self" rule: re_search_cases)
  case (captured w)
  with assms obtain a b where w: "w = a @ CHR ''.'' # b" "is_digits a" "is_digits b"
    unfolding float_shaped_def by blast
  show ?thesis using captured(1) py_float_decimal[OF w(2,3)]
    unfolding get_float_def get_def float_rule_def w(1) by simp
qed (simp_all add: get_float_def get_def float_rule_def)

lemma P1Packet_init_cases:
  "P1Packet_init c data =
     (if tariff_within_limit (text_of data)
      then Some \<lparr>raw = text_of data, packet_keys = rule_table (text_of data)\<rparr>
      else None)"
proof -
  define self where "self = \<lparr>class_raw = c, inst_raw = Some (text_of data)\<rparr>"
  have r: "raw_attr self = text_of data" by (simp add: self_def raw_attr_def)
  have h: "always_caps header_rx" by (simp add: header_rx_def)
  show ?thesis
    unfolding P1Packet_init_def text_of_def[symmetric] self_def[symmetric] Let_def
    by (simp add: get_int_tariff get_int_digit get_float_rule get_str_rule_None
        get_str_rule[OF h] digit_shaped_switch digit_shaped_device_type digit_shaped_valve
        float_shaped_treshold float_shaped_gas_total float_shaped_energy
        kwh_low_consumed_rx_def kwh_low_produced_rx_def kwh_high_consumed_rx_def
        kwh_high_produced_rx_def kwh_current_consumed_rx_def kwh_current_produced_rx_def
        r rule_table_def)
qed

section \<open>The framer\<close>

lemma step_header:
  assumes "starts_with ''/ISk5'' line"
  shows "step line st = Inr (absorb line st)" and "lines (absorb line st) = [line]"
    and "complete_packet (absorb line st) = complete_packet st"
    and "max_lines (absorb line st) =
           (if ends_with ''1004'' line then 19 else if ends_with ''1003'' line then 13
            else max_lines st)"
proof -
  from assms have nb: "\<not> starts_with ''!'' line"
    unfolding starts_with_def by (cases line) auto
  show l: "lines (absorb line st) = [line]"
    using assms by (simp add: absorb_def Let_def)
  show "step line st = Inr (absorb line st)"
    unfolding step_def Let_def l by simp
  show "complete_packet (absorb line st) = complete_packet st"
    using assms nb by (simp add: absorb_def Let_def)
  show "max_lines (absorb line st) =
           (if ends_with ''1004'' line then 19 else if ends_with ''1003'' line then 13
            else max_lines st)"
    using assms nb by (simp add: absorb_def Let_def)
qed

lemma absorb_footer:
  assumes "starts_with ''!'' line"
  shows "absorb line st =
     (let st2 = st\<lparr>lines_read := lines_read st + 1, lines := lines st @ [line]\<rparr>
      in if max_lines st < length (lines st @ [line]) then st2\<lparr>complete_packet := True\<rparr>
         else st2)"
proof -
  from assms have nh: "\<not> starts_with ''/ISk5'' line"
    unfolding starts_with_def by (cases line) auto
  show ?thesis using assms nh by (simp add: absorb_def Let_def)
qed

lemma read_loop_line:
  assumes "\<not> complete_packet st" "port (lines_read st) = Line l"
  shows "read_loop port st =
     (case step (strip l) st of Inl e \<Rightarrow> Some (Inl e) | Inr st' \<Rightarrow> read_loop port st')"
  using assms by (subst read_loop.simps) simp

lemma read_loop_complete:
  "complete_packet st \<Longrightarrow> read_loop port st = Some (Inr (lines st))"
  by (subst read_loop.simps) simp

lemma header_port_diverges:
  assumes "read_loop header_port st = Some y"
  shows "complete_packet st"
proof -
  have h: "starts_with ''/ISk5'' (strip ''/ISk5'')"
    by (simp add: strip_def is_space_def starts_with_def)
  have s: "strip ''/ISk5'' = ''/ISk5''"
    by (simp add: strip_def is_space_def)
  have "port = header_port \<longrightarrow> complete_packet st" if "read_loop port st = Some y" for port
  proof (rule read_loop.raw_induct[where P = "\<lambda>port st y. port = header_port \<longrightarrow> complete_packet st", OF _ that])
    fix loop :: "(nat \<Rightarrow> event) \<Rightarrow> loopstate \<Rightarrow> (error + string list) option"
      and port st y
    assume IH: "\<And>port st y. loop port st = Some y \<Longrightarrow> port = header_port \<longrightarrow> complete_packet st"
      and body: "(if complete_packet st then Some (Inr (lines st))
         else case port (lines_read st) of
           Line l \<Rightarrow> (case step (strip l) st of Inl e \<Rightarrow> Some (Inl e) | Inr st' \<Rightarrow> loop port st')
         | Fail \<Rightarrow> Some (Inl TransportError)) = Some y"
    show "port = header_port \<longrightarrow> complete_packet st"
    proof (intro impI, rule ccontr)
      assume p: "port = header_port" and nc: "\<not> complete_packet st"
      with body have "loop header_port (absorb ''/ISk5'' st) = Some y"
        using step_header(1)[OF h, of st] by (simp add: header_port_def s)
      from IH[OF this] have "complete_packet (absorb ''/ISk5'' st)" by simp
      with step_header(3)[OF h, of st] nc show False by (simp add: s)
    qed
  qed
  from this[OF assms] show ?thesis by simp
qed

lemma header_port_never_returns: "read_one_packet header_port = None"
proof (cases "read_loop header_port initial")
  case None
  then show ?thesis by (simp add: read_one_packet_def)
next
  case (Some y)
  from header_port_diverges[OF this] show ?thesis by (simp add: initial_def)
qed


lemma step_footer:
  assumes "starts_with ''!'' line"
  shows "step line st =
     (let buffer = lines st @ [line];
          st2 = st\<lparr>lines_read := lines_read st + 1, lines := buffer\<rparr> in
      if max_lines st * 2 + 2 < length buffer then Inl (StuckInLoop (length buffer))
      else if max_lines st < length buffer then Inr (st2\<lparr>complete_packet := True\<rparr>)
      else Inr st2)"
  unfolding step_def absorb_footer[OF assms] by (simp add: Let_def)

lemmas eval_loop = read_one_packet_def read_loop.simps telegram_port_def initial_def step_def
  absorb_def starts_with_def ends_with_def strip_def is_space_def Let_def

text \<open>
  C8. When the line read, stripped, begins with \<open>/ISk5\<close>, the pass through the loop
  succeeds and leaves a buffer of exactly that line, whatever the buffer held; the
  read goes on from there.
\<close>

theorem C8_header_resets_buffer:
  assumes "\<not> complete_packet st" "port (lines_read st) = Line l"
    and "starts_with ''/ISk5'' (strip l)"
  shows "\<exists>st'. step (strip l) st = Inr st' \<and> lines st' = [strip l]
          \<and> read_loop port st = read_loop port st'"
  using step_header(1,2)[OF assms(3), of st] read_loop_line[of st port l] assms(1,2) by simp

theorem C8_header_resets_buffer_witness:
  "\<exists>st'. step ''/ISk5-1004'' \<lparr>lines = [''/ISk5-1003'', ''a'', ''b''], lines_read = 3,
              complete_packet = False, max_lines = 13\<rparr> = Inr st'
     \<and> lines st' = [''/ISk5-1004'']"
  using C8_header_resets_buffer[of "\<lparr>lines = [''/ISk5-1003'', ''a'', ''b''], lines_read = 3,
              complete_packet = False, max_lines = 13\<rparr>" "\<lambda>i. Line '' /ISk5-1004  ''" "'' /ISk5-1004  ''"]
  by (auto simp: strip_def is_space_def starts_with_def)

text \<open>
  C2 as stated fails: after the header \<open>/ISk5-1004\<close> (expected maximum 19) and 39 body
  lines, the footer is line 41 of the buffer, which is more than 19, and the read
  fails with the runaway error instead of completing.
\<close>

theorem C2_counterexample:
  "starts_with ''!'' ''!'' \<and> (19::nat) < 41
   \<and> read_one_packet (telegram_port ''/ISk5-1004'' 40) = Some (Inl (StuckInLoop 41))"
  by (simp add: eval_loop)

text \<open>
  C2, as amended. A line beginning with \<open>!\<close> completes the telegram (the read returns
  the buffer, that line included) if and only if the buffer then holds more lines than
  the expected maximum and no more than twice that maximum plus two; with at most the
  expected maximum the read goes on with the line buffered; beyond the upper bound the
  read fails with the runaway error.
\<close>

theorem C2_footer_completes_in_window:
  assumes "\<not> complete_packet st" "port (lines_read st) = Line l"
    and "starts_with ''!'' (strip l)"
  shows "((\<exists>st'. step (strip l) st = Inr st' \<and> complete_packet st') \<longleftrightarrow>
            max_lines st < length (lines st @ [strip l])
            \<and> length (lines st @ [strip l]) \<le> max_lines st * 2 + 2)
       \<and> read_loop port st =
          (let buffer = lines st @ [strip l] in
           if max_lines st * 2 + 2 < length buffer then Some (Inl (StuckInLoop (length buffer)))
           else if max_lines st < length buffer then Some (Inr buffer)
           else read_loop port (st\<lparr>lines_read := lines_read st + 1, lines := buffer\<rparr>))"
proof -
  note sf = step_footer[OF assms(3)]
  have a: "(\<exists>st'. step (strip l) st = Inr st' \<and> complete_packet st') \<longleftrightarrow>
            max_lines st < length (lines st @ [strip l])
            \<and> length (lines st @ [strip l]) \<le> max_lines st * 2 + 2"
    unfolding sf Let_def using assms(1) by auto
  have b: "read_loop port st =
          (let buffer = lines st @ [strip l] in
           if max_lines st * 2 + 2 < length buffer then Some (Inl (StuckInLoop (length buffer)))
           else if max_lines st < length buffer then Some (Inr buffer)
           else read_loop port (st\<lparr>lines_read := lines_read st + 1, lines := buffer\<rparr>))"
    unfolding read_loop_line[of st port l, OF assms(1,2)] sf Let_def
    using assms(1) by (simp add: read_loop_complete)
  from a b show ?thesis by blast
qed

theorem C2_footer_completes_in_window_witness:
  "read_loop (\<lambda>i. Line ''!'')
     \<lparr>lines = ''/ISk5-1003'' # replicate 12 ''x'', lines_read = 13,
      complete_packet = False, max_lines = 13\<rparr>
   = Some (Inr (''/ISk5-1003'' # replicate 12 ''x'' @ [''!'']))"
  using C2_footer_completes_in_window[of
      "\<lparr>lines = ''/ISk5-1003'' # replicate 12 ''x'', lines_read = 13,
        complete_packet = False, max_lines = 13\<rparr>" "\<lambda>i. Line ''!''" "''!''"]
  by (simp add: strip_def is_space_def starts_with_def)

text \<open>
  C3 as stated fails: after the header \<open>/ISk5-1003\<close> (expected maximum 13) and 27 body
  lines, a footer arrives while the buffer exceeds the expected maximum, and the read
  fails with the runaway error.
\<close>

theorem C3_counterexample:
  "starts_with ''!'' ''!'' \<and> (13::nat) < 29
   \<and> read_one_packet (telegram_port ''/ISk5-1003'' 28) = Some (Inl (StuckInLoop 29))"
  by (simp add: eval_loop)

text \<open>
  C4 as stated fails: a header with another ending that follows a header ending in
  \<open>1003\<close> leaves the expected maximum at 13, not 35.
\<close>

theorem C4_counterexample:
  "step ''/ISk5-1003'' initial
     = Inr \<lparr>lines = [''/ISk5-1003''], lines_read = 1, complete_packet = False, max_lines = 13\<rparr>
   \<and> step ''/ISk5-2000''
        \<lparr>lines = [''/ISk5-1003''], lines_read = 1, complete_packet = False, max_lines = 13\<rparr>
     = Inr \<lparr>lines = [''/ISk5-2000''], lines_read = 2, complete_packet = False, max_lines = 13\<rparr>"
  by (simp add: eval_loop)

lemma ends_1003_not_1004: "ends_with ''1003'' line \<Longrightarrow> \<not> ends_with ''1004'' line"
  unfolding ends_with_def by auto

text \<open>
  C4, as amended. A header ending in \<open>1003\<close> sets the expected maximum to 13 and one
  ending in \<open>1004\<close> sets it to 19; a header with any other ending leaves the expected
  maximum as it was, which is 35 at the start of a read and otherwise what an earlier
  header of the same read has set.
\<close>

theorem C4_header_sets_expected_maximum:
  assumes "starts_with ''/ISk5'' line"
  shows "max_lines initial = 35
       \<and> (\<exists>st'. step line st = Inr st'
             \<and> max_lines st' = (if ends_with ''1003'' line then 13
                                else if ends_with ''1004'' line then 19
                                else max_lines st))"
  using step_header(1,4)[OF assms, of st] ends_1003_not_1004[of line]
  by (auto simp: initial_def)

theorem C4_header_sets_expected_maximum_witness:
  "\<exists>st'. step ''/ISk5-1004'' initial = Inr st' \<and> max_lines st' = 19"
  using C4_header_sets_expected_maximum[of "''/ISk5-1004''" initial]
  by (simp add: starts_with_def ends_with_def)

lemma absorb_other:
  assumes "\<not> starts_with ''/ISk5'' line"
  shows "lines (absorb line st) = lines st @ [line]"
    and "max_lines (absorb line st) = max_lines st"
  using assms by (simp_all add: absorb_def Let_def)

section \<open>Matching inside one line\<close>

lemma star_suffix:
  "\<not> in_cls c nl \<Longrightarrow> star c b (u @ nl # v) g = map (add_suffix (nl # v)) (star c b u g)"
  by (induction u arbitrary: b) (simp_all add: add_suffix_def)

lemma grp_plus_suffix:
  "\<not> in_cls c nl \<Longrightarrow> grp_plus c (u @ nl # v) = map (add_suffix (nl # v)) (grp_plus c u)"
  by (induction u) (simp_all add: add_suffix_def)

lemma m_length: "s' \<in> set (m r s) \<Longrightarrow> length (rest s') \<le> length (rest s)"
  using m_shape[of s' r s] by auto

lemma m_suffix:
  "nl_free r \<Longrightarrow> m r (St b (u @ nl # v) g) = map (add_suffix (nl # v)) (m r (St b u g))"
proof (induction r arbitrary: b u g)
  case Eol
  then show ?case by (cases u) (simp_all add: add_suffix_def)
next
  case (Ch c)
  then show ?case by (cases u) (simp_all add: add_suffix_def)
next
  case (Star c)
  then show ?case by (simp add: star_suffix)
next
  case (GrpPlus c)
  then show ?case by (simp add: grp_plus_suffix)
next
  case (Cat a1 a2)
  have "m a2 (add_suffix (nl # v) s1) = map (add_suffix (nl # v)) (m a2 s1)" for s1
    using Cat.IH(2)[of "at_bol s1" "rest s1" "grp s1"] Cat.prems
    by (simp add: add_suffix_def)
  then show ?case using Cat.IH(1)[of b u g] Cat.prems
    by (simp add: map_concat comp_def)
next
  case (Opt a)
  then show ?case by (simp add: add_suffix_def)
next
  case (Grp a)
  have "take (length (u @ nl # v) - length (rest (add_suffix (nl # v) s1))) (u @ nl # v)
        = take (length u - length (rest s1)) u" if "s1 \<in> set (m a (St b u g))" for s1
    using m_length[OF that] by (simp add: add_suffix_def)
  then show ?case using Grp.IH[of b u g] Grp.prems
    by (simp add: add_suffix_def comp_def)
qed (simp_all add: add_suffix_def)

lemma line_match_suffix:
  "nl_free r \<Longrightarrow>
     (case m r (St True (u @ nl # v) None) of [] \<Rightarrow> None | s # _ \<Rightarrow> Some (grp s))
       = line_match r u"
  unfolding line_match_def
  by (cases "m r (St True u None)") (simp_all add: m_suffix add_suffix_def)

lemma anchored_not_bol: "anchored r \<Longrightarrow> m r (St False t g) = []"
  by (induction r rule: anchored.induct) simp_all

lemma search_from_inside:
  assumes "anchored r" "nl \<notin> set u"
  shows "search_from r False (u @ nl # v) = search_from r True v"
    and "search_from r False u = None"
  using assms(2) by (induction u) (auto simp: anchored_not_bol[OF assms(1)])

lemma search_from_line:
  assumes "anchored r" "nl_free r" "nl \<notin> set u"
  shows "search_from r True (u @ nl # v)
           = (case line_match r u of None \<Rightarrow> search_from r True v | Some g \<Rightarrow> Some g)"
proof (cases "m r (St True (u @ nl # v) None)")
  case Nil
  with line_match_suffix[OF assms(2), of u v] have lm: "line_match r u = None" by simp
  show ?thesis
  proof (cases u)
    case Nil
    with \<open>m r (St True (u @ nl # v) None) = []\<close> lm show ?thesis by simp
  next
    case (Cons x xs)
    with assms(3) have "x \<noteq> nl" "nl \<notin> set xs" by auto
    with \<open>m r (St True (u @ nl # v) None) = []\<close> lm Cons
      search_from_inside(1)[OF assms(1), of xs v]
    show ?thesis by simp
  qed
next
  case (Cons s ss)
  with line_match_suffix[OF assms(2), of u v] have "line_match r u = Some (grp s)" by simp
  with Cons show ?thesis by (cases u) simp_all
qed

lemma search_from_last_line:
  assumes "anchored r" "nl \<notin> set u"
  shows "search_from r True u = line_match r u"
proof (cases u)
  case Nil
  then show ?thesis by (simp add: line_match_def)
next
  case (Cons x xs)
  with assms(2) have "x \<noteq> nl" "nl \<notin> set xs" by auto
  with Cons search_from_inside(2)[OF assms(1), of xs] show ?thesis
    by (simp add: line_match_def split: list.splits)
qed

lemma lines_of_no_nl: "nl \<notin> set u \<Longrightarrow> lines_of u = [u]"
  by (induction u) auto

lemma lines_of_append: "nl \<notin> set u \<Longrightarrow> lines_of (u @ nl # v) = u # lines_of v"
  by (induction u) auto

lemma first_line_match_Cons:
  "first_line_match r (u # ls)
     = (case line_match r u of None \<Rightarrow> first_line_match r ls | Some g \<Rightarrow> Some g)"
  unfolding first_line_match_def matches_def by (auto split: option.splits)

lemma first_line_match_single: "first_line_match r [u] = line_match r u"
  unfolding first_line_match_def matches_def by (auto split: option.splits)

lemma re_search_by_lines:
  assumes "anchored r" "nl_free r"
  shows "re_search r t = first_line_match r (lines_of t)"
  unfolding re_search_def
proof (induction t rule: length_induct)
  case (1 t)
  define u where "u = takeWhile (\<lambda>c. c \<noteq> nl) t"
  define d where "d = dropWhile (\<lambda>c. c \<noteq> nl) t"
  have t: "t = u @ d" and u: "nl \<notin> set u"
    unfolding u_def d_def by (auto dest: set_takeWhileD)
  show ?case
  proof (cases d)
    case Nil
    with t u show ?thesis
      using search_from_last_line[OF assms(1), of u]
      by (simp add: lines_of_no_nl first_line_match_single)
  next
    case (Cons x v)
    have "x = nl"
      using hd_dropWhile[of "\<lambda>c. c \<noteq> nl" t] Cons unfolding d_def by auto
    with t Cons have t': "t = u @ nl # v" by simp
    then have "length v < length t" by simp
    with 1 have "search_from r True v = first_line_match r (lines_of v)" by blast
    then show ?thesis
      unfolding t' search_from_line[OF assms u] lines_of_append[OF u] first_line_match_Cons
      by (simp split: option.splits)
  qed
qed

lemmas eval_rx = lit_def plus_def times_def energy_rx_def line_match_def matches_def
  re_search_def is_digit_def

lemma nl_free_seq_Cons: "nl_free (seq (r # rs)) = (nl_free r \<and> nl_free (seq rs))"
  by (cases rs) auto

lemma nl_free_lit [simp]: "nl_free (lit s) = (nl \<notin> set s)"
  unfolding lit_def by (induction s) (auto simp: nl_free_seq_Cons)

lemma nl_free_plus [simp]: "nl_free (plus c) = (\<not> in_cls c nl)"
  by (simp add: plus_def)

lemma nl_free_times [simp]: "\<not> in_cls c nl \<Longrightarrow> nl_free (times n c)"
  unfolding times_def by (induction n) (auto simp: nl_free_seq_Cons)

lemma not_digit_nl [simp]: "\<not> is_digit nl"
  by (simp add: is_digit_def)

lemma line_local_tariff: "anchored kwh_tariff_rx \<and> nl_free kwh_tariff_rx"
  by (simp add: kwh_tariff_rx_def)

lemma line_local_treshold: "anchored kwh_treshold_rx \<and> nl_free kwh_treshold_rx"
  by (simp add: kwh_treshold_rx_def)

lemma line_local_energy:
  "nl \<notin> set obis \<Longrightarrow> nl \<notin> set unit \<Longrightarrow>
     anchored (energy_rx obis unit) \<and> nl_free (energy_rx obis unit)"
  by (simp add: energy_rx_def)

lemma line_local_gas_total: "anchored gas_total_rx \<and> nl_free gas_total_rx"
  by (simp add: gas_total_rx_def)

lemma line_local_msg_code: "anchored msg_code_rx \<and> nl_free msg_code_rx"
  by (simp add: msg_code_rx_def)

lemma first_line_match_none:
  "\<forall>l\<in>set ls. \<not> matches r l \<Longrightarrow> first_line_match r ls = None"
proof -
  assume "\<forall>l\<in>set ls. \<not> matches r l"
  then have "find (matches r) ls = None" by (simp add: find_None_iff)
  then show ?thesis unfolding first_line_match_def by simp
qed

lemma first_line_match_find:
  "find (matches r) ls = Some l \<Longrightarrow> first_line_match r ls = line_match r l"
  unfolding first_line_match_def by simp

lemma gas_total_bare:
  assumes "length a = 5" "length b = 3" "list_all is_digit a" "list_all is_digit b"
  shows "line_match gas_total_rx (''('' @ a @ ''.'' @ b @ '')'') = Some (Some (a @ ''.'' @ b))"
    and "line_match gas_total_rx (''('' @ a @ ''.'' @ b @ ''*m3)'') = Some (Some (a @ ''.'' @ b))"
proof -
  obtain a1 a2 a3 a4 a5 where a: "a = [a1, a2, a3, a4, a5]"
    using assms(1) by (auto simp: numeral_eq_Suc length_Suc_conv)
  obtain b1 b2 b3 where b: "b = [b1, b2, b3]"
    using assms(2) by (auto simp: numeral_eq_Suc length_Suc_conv)
  from assms(3,4) have d: "is_digit a1" "is_digit a2" "is_digit a3" "is_digit a4" "is_digit a5"
    "is_digit b1" "is_digit b2" "is_digit b3"
    unfolding a b by simp_all
  show "line_match gas_total_rx (''('' @ a @ ''.'' @ b @ '')'') = Some (Some (a @ ''.'' @ b))"
    unfolding a b using d
    by (simp add: gas_total_rx_def lit_def plus_def times_def line_match_def numeral_eq_Suc)
  show "line_match gas_total_rx (''('' @ a @ ''.'' @ b @ ''*m3)'') = Some (Some (a @ ''.'' @ b))"
    unfolding a b using d
    by (simp add: gas_total_rx_def lit_def plus_def times_def line_match_def numeral_eq_Suc)
qed

lemma float_rule_first_line:
  assumes "anchored r \<and> nl_free r" "find (matches r) (lines_of t) = Some l"
    and "line_match r l = Some (Some (a @ CHR ''.'' # b))" "is_digits a" "is_digits b"
  shows "float_rule r d t = PyFloat (decimal_val a b)"
  using assms re_search_by_lines[of r t] first_line_match_find[OF assms(2)]
    py_float_decimal(2)[OF assms(4,5)]
  by (simp add: float_rule_def)

lemma int_rule_first_line:
  assumes "anchored r \<and> nl_free r" "find (matches r) (lines_of t) = Some l"
    and "line_match r l = Some (Some w)"
  shows "int_rule r d t = PyInt (int (digits_val w))"
  using assms re_search_by_lines[of r t] first_line_match_find[OF assms(2)]
  by (simp add: int_rule_def)

lemma str_rule_no_line:
  assumes "anchored r \<and> nl_free r" "\<forall>l\<in>set (lines_of t). \<not> matches r l"
  shows "str_rule r d t = d"
  using assms re_search_by_lines[of r t] first_line_match_none[OF assms(2)]
  by (simp add: str_rule_def)


section \<open>The limit of int\<close>

lemma star_digits:
  assumes "list_all is_digit ds" "r = [] \<or> \<not> is_digit (hd r)"
  shows "\<exists>ss. star Digit b (ds @ r) g = St (b \<and> ds = []) r g # ss"
  using assms(1)
proof (induction ds arbitrary: b)
  case Nil
  with assms(2) show ?case by (cases r) auto
next
  case (Cons d ds)
  then have d: "is_digit d" "d \<noteq> nl" by auto
  from Cons.prems have "list_all is_digit ds" by simp
  from Cons.IH[OF this, of False]
  obtain ss where "star Digit False (ds @ r) g = St False r g # ss" by auto
  with d show ?case by simp
qed

lemma tariff_line_match:
  assumes "ds \<noteq> []" "list_all is_digit ds"
  shows "line_match kwh_tariff_rx (''0-0:96.14.0('' @ ds @ '')'') = Some (Some ds)"
proof -
  from assms obtain d ds' where ds: "ds = d # ds'" "is_digit d" "list_all is_digit ds'"
    by (cases ds) auto
  then have nd: "d \<noteq> nl" by auto
  from star_digits[OF ds(3), of "'')''" False None]
  obtain ss where st: "star Digit False (ds' @ '')'') None = St False '')'' None # ss"
    by (auto simp: is_digit_def)
  show ?thesis
    unfolding ds(1) using ds(2) nd
    by (simp add: kwh_tariff_rx_def lit_def plus_def line_match_def st)
qed

lemma many_ones_digits: "many_ones \<noteq> []" "list_all is_digit many_ones" "length many_ones = 4301"
  "nl \<notin> set many_ones"
  unfolding many_ones_def by (simp_all add: list_all_iff is_digit_def)

lemma long_tariff_no_nl: "nl \<notin> set long_tariff"
  unfolding long_tariff_def using many_ones_digits(4) by simp

lemma long_tariff_search: "re_search kwh_tariff_rx long_tariff = Some (Some many_ones)"
proof -
  have "re_search kwh_tariff_rx long_tariff = line_match kwh_tariff_rx long_tariff"
    using re_search_by_lines[of kwh_tariff_rx long_tariff] line_local_tariff
      lines_of_no_nl[OF long_tariff_no_nl]
    by (simp add: first_line_match_single)
  then show ?thesis
    unfolding long_tariff_def using tariff_line_match[OF many_ones_digits(1,2)] by simp
qed

lemma long_tariff_beyond_limit: "\<not> tariff_within_limit long_tariff"
  unfolding tariff_within_limit_def long_tariff_search
  by (simp add: many_ones_digits(3) int_max_str_digits_def)

lemma tariff_limit_by_lines:
  "tariff_within_limit t \<longleftrightarrow>
     (case first_line_match kwh_tariff_rx (lines_of t) of
        Some (Some w) \<Rightarrow> length w \<le> int_max_str_digits | _ \<Rightarrow> True)"
  unfolding tariff_within_limit_def
  using re_search_by_lines[of kwh_tariff_rx t] line_local_tariff by simp

text \<open>
  C7 as stated fails: on a text whose tariff line has 4301 digits, \<^verbatim>\<open>int\<close> raises
  \<^verbatim>\<open>ValueError\<close> in \<^verbatim>\<open>get_int\<close>, nothing catches it, and no record is returned.
\<close>

theorem C7_counterexample:
  "new_P1Packet (PyText long_tariff) = None"
  unfolding new_P1Packet_def P1Packet_init_cases
  by (simp add: text_of_def long_tariff_beyond_limit)

text \<open>
  C7, as amended. For every input, a list of lines or a string, in which the first
  match of the tariff pattern (if any) captures at most 4300 digits, the constructor
  returns a packet and raises nothing: the packet keeps the text, and each field is
  what its rule extracts from the text or the rule's default. When that match captures
  more than 4300 digits the constructor raises and returns no packet.
\<close>

theorem C7_parse_total_within_limit:
  "(tariff_within_limit (text_of data) \<longrightarrow>
      (\<exists>p. new_P1Packet data = Some p \<and> raw p = text_of data
          \<and> packet_keys p = rule_table (text_of data)))
   \<and> (\<not> tariff_within_limit (text_of data) \<longrightarrow> new_P1Packet data = None)"
  unfolding new_P1Packet_def P1Packet_init_cases by simp

lemma scenario_text: "lines_of (text_of (PyList scenario)) = scenario"
  by (simp add: text_of_def scenario_def)

lemma scenario_within_limit: "tariff_within_limit (text_of (PyList scenario))"
  unfolding tariff_limit_by_lines scenario_text
  by (simp add: first_line_match_def scenario_def kwh_tariff_rx_def eval_rx
      int_max_str_digits_def)

theorem C7_parse_total_within_limit_witness:
  "tariff_within_limit (text_of (PyList scenario))
   \<and> (\<exists>p. new_P1Packet (PyList scenario) = Some p \<and> raw p = join_nl scenario
          \<and> packet_keys p = rule_table (join_nl scenario))
   \<and> \<not> tariff_within_limit (text_of (PyText long_tariff))
   \<and> new_P1Packet (PyText long_tariff) = None"
  using C7_parse_total_within_limit[of "PyList scenario"]
    C7_parse_total_within_limit[of "PyText long_tariff"]
    scenario_within_limit long_tariff_beyond_limit
  by (simp add: text_of_def)

text \<open>
  C5. A list of lines and the string that joins them with newlines have the same
  outcome: the same packet, field for field, whose string form is the joined text, or
  the same error. The packet exists whenever the tariff capture is within the limit
  of \<^verbatim>\<open>int\<close>.
\<close>

theorem C5_list_and_joined_string_agree:
  "new_P1Packet (PyList ls) = new_P1Packet (PyText (join_nl ls))
   \<and> (\<forall>p. new_P1Packet (PyList ls) = Some p \<longrightarrow>
         str_of p = join_nl ls \<and> packet_keys p = rule_table (join_nl ls))
   \<and> (tariff_within_limit (join_nl ls) \<longrightarrow> new_P1Packet (PyList ls) \<noteq> None)"
  unfolding new_P1Packet_def P1Packet_init_cases str_of_def
  by (auto simp: text_of_def)

theorem C5_list_and_joined_string_agree_witness:
  "\<exists>p. new_P1Packet (PyList scenario) = Some p
     \<and> new_P1Packet (PyText (join_nl scenario)) = Some p
     \<and> str_of p = join_nl scenario"
proof -
  note t = C5_list_and_joined_string_agree[of scenario]
  from t have eq: "new_P1Packet (PyList scenario) = new_P1Packet (PyText (join_nl scenario))"
    by blast
  have "tariff_within_limit (join_nl scenario)"
    using scenario_within_limit by (simp add: text_of_def)
  with t have "new_P1Packet (PyList scenario) \<noteq> None" by blast
  then obtain p where p: "new_P1Packet (PyList scenario) = Some p" by blast
  from t p have s: "str_of p = join_nl scenario" by blast
  from eq p have "new_P1Packet (PyText (join_nl scenario)) = Some p" by simp
  with p s show ?thesis by blast
qed

text \<open>
  C9. Two constructions from the same input have the same outcome, the same packet in
  every field or the same error, whatever the class attribute \<^verbatim>\<open>_raw\<close> holds at either
  call: the instance reads its own \<^verbatim>\<open>_raw\<close> only, and nothing is shared between the
  calls. The packet exists whenever the tariff capture is within the limit of
  \<^verbatim>\<open>int\<close>.
\<close>

theorem C9_parse_deterministic:
  "P1Packet_init c1 data = P1Packet_init c2 data
   \<and> (tariff_within_limit (text_of data) \<longrightarrow>
        (\<exists>p. P1Packet_init c1 data = Some p \<and> P1Packet_init c2 data = Some p))"
  by (simp add: P1Packet_init_cases)

theorem C9_parse_deterministic_witness:
  "\<exists>p. P1Packet_init ''stale'' (PyList scenario) = Some p
     \<and> P1Packet_init [] (PyList scenario) = Some p"
  using C9_parse_deterministic[of "''stale''" "PyList scenario" "[]"] scenario_within_limit
  by blast

lemma header_not_footer: "starts_with ''/ISk5'' line \<Longrightarrow> \<not> starts_with ''!'' line"
  unfolding starts_with_def by (cases line) auto

lemma absorb_explicit:
  "absorb line st =
     (let hdr = starts_with ''/ISk5'' line;
          buffer = (if hdr then [line] else lines st @ [line]);
          mx = (if hdr \<and> ends_with ''1003'' line then 13
                else if hdr \<and> ends_with ''1004'' line then 19 else max_lines st);
          st2 = st\<lparr>lines_read := lines_read st + 1, max_lines := mx, lines := buffer\<rparr>
      in if starts_with ''!'' line \<and> mx < length buffer
         then st2\<lparr>complete_packet := True\<rparr> else st2)"
  using ends_1003_not_1004[of line]
  by (cases st) (auto simp: absorb_def Let_def)

text \<open>
  C3, as amended. In a pass through the loop that reads a line, the read fails with
  the runaway error exactly when the buffer, with that line taken in, holds more than
  twice the expected maximum plus two lines, whether or not the line is a footer; the
  buffer then holds exactly one line more than that bound, and the pass fails with no
  other error. Otherwise the read returns the buffer if the line is a footer and the
  buffer holds more than the expected maximum, and goes on with the line buffered if
  not. So a footer that arrives while the buffer holds more than the expected maximum
  and no more than the bound completes the read without this error.
\<close>

theorem C3_runaway_exactly_beyond_bound:
  assumes "\<not> complete_packet st" "port (lines_read st) = Line l"
    and "length (lines st) \<le> max_lines st * 2 + 2"
  shows "let line = strip l;
             hdr = starts_with ''/ISk5'' line;
             buffer = (if hdr then [line] else lines st @ [line]);
             mx = (if hdr \<and> ends_with ''1003'' line then 13
                   else if hdr \<and> ends_with ''1004'' line then 19 else max_lines st);
             bound = mx * 2 + 2
         in ((\<exists>e. step line st = Inl e) \<longleftrightarrow> bound < length buffer)
          \<and> (bound < length buffer \<longrightarrow>
                length buffer = bound + 1
                \<and> step line st = Inl (StuckInLoop (length buffer)))
          \<and> read_loop port st =
              (if bound < length buffer then Some (Inl (StuckInLoop (length buffer)))
               else if starts_with ''!'' line \<and> mx < length buffer then Some (Inr buffer)
               else read_loop port
                      (st\<lparr>lines_read := lines_read st + 1, max_lines := mx,
                            lines := buffer\<rparr>))"
proof -
  define line where "line = strip l"
  define hdr where "hdr = starts_with ''/ISk5'' line"
  define buffer where "buffer = (if hdr then [line] else lines st @ [line])"
  define mx where "mx = (if hdr \<and> ends_with ''1003'' line then 13
                   else if hdr \<and> ends_with ''1004'' line then 19 else max_lines st)"
  define bound where "bound = mx * 2 + 2"
  define st2 where "st2 = st\<lparr>lines_read := lines_read st + 1, max_lines := mx, lines := buffer\<rparr>"
  have ab: "absorb line st =
      (if starts_with ''!'' line \<and> mx < length buffer then st2\<lparr>complete_packet := True\<rparr>
       else st2)"
    unfolding absorb_explicit[of line st] Let_def st2_def buffer_def mx_def hdr_def by simp
  have ls: "lines (absorb line st) = buffer" "max_lines (absorb line st) = mx"
    unfolding ab st2_def by simp_all
  have step: "step line st =
      (if bound < length buffer then Inl (StuckInLoop (length buffer))
       else Inr (absorb line st))"
    unfolding step_def Let_def ls bound_def by simp
  have first: "length buffer = bound + 1" if "bound < length buffer"
  proof (cases hdr)
    case True
    with that show ?thesis unfolding buffer_def bound_def by simp
  next
    case False
    with that assms(3) show ?thesis unfolding buffer_def bound_def mx_def by simp
  qed
  have nc: "\<not> complete_packet st2" using assms(1) unfolding st2_def by simp
  have loop: "read_loop port st =
      (if bound < length buffer then Some (Inl (StuckInLoop (length buffer)))
       else if starts_with ''!'' line \<and> mx < length buffer then Some (Inr buffer)
       else read_loop port st2)"
  proof -
    have "read_loop port st =
        (case step line st of Inl e \<Rightarrow> Some (Inl e) | Inr st' \<Rightarrow> read_loop port st')"
      using read_loop_line[of st port l] assms(1,2) unfolding line_def by simp
    also have "\<dots> = (if bound < length buffer then Some (Inl (StuckInLoop (length buffer)))
       else if starts_with ''!'' line \<and> mx < length buffer then Some (Inr buffer)
       else read_loop port st2)"
      unfolding step ab
      by (simp add: read_loop_complete) (simp add: st2_def)
    finally show ?thesis .
  qed
  have "((\<exists>e. step line st = Inl e) \<longleftrightarrow> bound < length buffer)
          \<and> (bound < length buffer \<longrightarrow>
                length buffer = bound + 1
                \<and> step line st = Inl (StuckInLoop (length buffer)))
          \<and> read_loop port st =
              (if bound < length buffer then Some (Inl (StuckInLoop (length buffer)))
               else if starts_with ''!'' line \<and> mx < length buffer then Some (Inr buffer)
               else read_loop port st2)"
    using step first loop by auto
  then show ?thesis
    unfolding Let_def line_def hdr_def buffer_def mx_def bound_def st2_def by simp
qed

theorem C3_runaway_exactly_beyond_bound_witness:
  "read_loop (\<lambda>i. Line ''x'')
     \<lparr>lines = ''/ISk5-1003'' # replicate 27 ''x'', lines_read = 28,
      complete_packet = False, max_lines = 13\<rparr>
     = Some (Inl (StuckInLoop 29))
   \<and> read_loop (\<lambda>i. Line ''!'')
     \<lparr>lines = ''/ISk5-1003'' # replicate 26 ''x'', lines_read = 27,
      complete_packet = False, max_lines = 13\<rparr>
     = Some (Inr (''/ISk5-1003'' # replicate 26 ''x'' @ [''!'']))"
  using C3_runaway_exactly_beyond_bound[of
      "\<lparr>lines = ''/ISk5-1003'' # replicate 27 ''x'', lines_read = 28,
        complete_packet = False, max_lines = 13\<rparr>" "\<lambda>i. Line ''x''" "''x''"]
    C3_runaway_exactly_beyond_bound[of
      "\<lparr>lines = ''/ISk5-1003'' # replicate 26 ''x'', lines_read = 27,
        complete_packet = False, max_lines = 13\<rparr>" "\<lambda>i. Line ''!''" "''!''"]
  by (simp add: strip_def is_space_def starts_with_def Let_def)

lemma two_gas_totals_within_limit: "tariff_within_limit (text_of (PyText two_gas_totals))"
  unfolding tariff_limit_by_lines
  by (simp add: text_of_def two_gas_totals_def first_line_match_def kwh_tariff_rx_def eval_rx)

lemma two_tariffs_within_limit: "tariff_within_limit (text_of (PyList two_tariffs))"
  unfolding tariff_limit_by_lines
  by (simp add: text_of_def two_tariffs_def scenario_def first_line_match_def
      kwh_tariff_rx_def eval_rx int_max_str_digits_def)

text \<open>
  C6 as stated fails: the one-line text \<open>long_tariff\<close> has no line matching the
  high-tariff-produced pattern and none matching the gas-total pattern, and the
  constructor raises on its tariff line, so neither field gets a value.
\<close>

theorem C6_counterexample:
  "lines_of long_tariff = [long_tariff]
   \<and> \<not> matches kwh_high_produced_rx long_tariff
   \<and> \<not> matches gas_total_rx long_tariff
   \<and> new_P1Packet (PyText long_tariff) = None"
proof -
  have "\<not> matches kwh_high_produced_rx long_tariff"
    by (simp add: long_tariff_def kwh_high_produced_rx_def eval_rx)
  moreover have "\<not> matches gas_total_rx long_tariff"
    by (simp add: long_tariff_def gas_total_rx_def eval_rx)
  moreover have "new_P1Packet (PyText long_tariff) = None"
    unfolding new_P1Packet_def P1Packet_init_cases
    by (simp add: text_of_def long_tariff_beyond_limit)
  ultimately show ?thesis using lines_of_no_nl[OF long_tariff_no_nl] by simp
qed

text \<open>
  C6, as amended. Take a text in which the first match of the tariff pattern (if any)
  captures at most 4300 digits. If none of its lines matches the high-tariff-produced
  pattern, the record has \<^verbatim>\<open>None\<close> for that field, which is not a number; if none of
  its lines matches the gas-total pattern, the record has the integer 0 for the gas
  total.
\<close>

theorem C6_absent_versus_zero:
  "(tariff_within_limit (text_of data)
      \<and> (\<forall>l\<in>set (lines_of (text_of data)). \<not> matches kwh_high_produced_rx l) \<longrightarrow>
      (\<exists>p. new_P1Packet data = Some p \<and> produced (high (kwh (packet_keys p))) = PyNone
          \<and> produced (high (kwh (packet_keys p))) \<noteq> PyInt 0
          \<and> produced (high (kwh (packet_keys p))) \<noteq> PyFloat 0))
   \<and> (tariff_within_limit (text_of data)
      \<and> (\<forall>l\<in>set (lines_of (text_of data)). \<not> matches gas_total_rx l) \<longrightarrow>
      (\<exists>p. new_P1Packet data = Some p \<and> total (gas (packet_keys p)) = PyInt 0))"
proof -
  have hp: "anchored kwh_high_produced_rx" "nl_free kwh_high_produced_rx"
    unfolding kwh_high_produced_rx_def using line_local_energy by simp_all
  have gt: "anchored gas_total_rx" "nl_free gas_total_rx"
    using line_local_gas_total by simp_all
  show ?thesis
    unfolding new_P1Packet_def P1Packet_init_cases
    by (simp add: rule_table_def float_rule_def re_search_by_lines[OF hp]
        re_search_by_lines[OF gt] first_line_match_none)
qed

theorem C6_absent_versus_zero_witness:
  "\<exists>p. new_P1Packet (PyText ''1-0:1.8.1(0608.400*kWh)'') = Some p
     \<and> produced (high (kwh (packet_keys p))) = PyNone \<and> total (gas (packet_keys p)) = PyInt 0"
proof -
  have "tariff_within_limit (text_of (PyText ''1-0:1.8.1(0608.400*kWh)''))"
    unfolding tariff_limit_by_lines
    by (simp add: text_of_def first_line_match_def kwh_tariff_rx_def eval_rx)
  with C6_absent_versus_zero[of "PyText ''1-0:1.8.1(0608.400*kWh)''"] show ?thesis
    by (auto simp: text_of_def kwh_high_produced_rx_def gas_total_rx_def eval_rx)
qed

text \<open>
  C10 as stated fails: of two bare gas-total lines the first gives the gas total, so
  the text contains the line \<open>(00002.000)\<close> and the gas total is 1.
\<close>

theorem C10_counterexample:
  "''(00002.000)'' \<in> set (lines_of two_gas_totals)
   \<and> map_option (total \<circ> gas \<circ> packet_keys) (new_P1Packet (PyText two_gas_totals))
       = Some (PyFloat 1)
   \<and> decimal_val ''00002'' ''000'' = 2"
  unfolding new_P1Packet_def P1Packet_init_cases
  using two_gas_totals_within_limit
  by (simp add: rule_table_def float_rule_def text_of_def two_gas_totals_def gas_total_rx_def
      eval_rx decimal_of_def decimal_val_def digits_val_def digit_val_def numeral_eq_Suc)

text \<open>
  C10, as amended. Take a text in which the first match of the tariff pattern (if any)
  captures at most 4300 digits. When the first line of the text that matches the
  gas-total pattern consists solely of a parenthesized number of five digits, a dot and
  three digits, optionally followed by \<open>*m3\<close> inside the parentheses, with no
  \<open>0-1:24.2.1\<close> prefix, the gas total is that number: the whole address prefix of the
  rule is optional.
\<close>

theorem C10_bare_gas_total_line:
  assumes "tariff_within_limit (text_of data)"
    and "find (matches gas_total_rx) (lines_of (text_of data)) = Some l"
    and "l = ''('' @ a @ ''.'' @ b @ '')'' \<or> l = ''('' @ a @ ''.'' @ b @ ''*m3)''"
    and "length a = 5" "length b = 3" "list_all is_digit a" "list_all is_digit b"
  shows "\<exists>p. new_P1Packet data = Some p
           \<and> total (gas (packet_keys p)) = PyFloat (decimal_val a b)"
proof -
  from assms(4-7) have dg: "is_digits a" "is_digits b"
    unfolding is_digits_def by auto
  from assms(3) gas_total_bare[OF assms(4-7)]
  have "line_match gas_total_rx l = Some (Some (a @ CHR ''.'' # b))" by auto
  from float_rule_first_line[OF line_local_gas_total assms(2) this dg] assms(1)
  show ?thesis
    unfolding new_P1Packet_def P1Packet_init_cases
    by (simp add: rule_table_def)
qed

theorem C10_bare_gas_total_line_witness:
  "\<exists>p. new_P1Packet (PyText two_gas_totals) = Some p
     \<and> total (gas (packet_keys p)) = PyFloat (decimal_val ''00001'' ''000'')"
proof -
  have "find (matches gas_total_rx) (lines_of (text_of (PyText two_gas_totals)))
          = Some ''(00001.000)''"
    by (simp add: text_of_def two_gas_totals_def gas_total_rx_def eval_rx numeral_eq_Suc)
  from C10_bare_gas_total_line[OF two_gas_totals_within_limit this, of "''00001''" "''000''"]
  show ?thesis by (simp add: is_digit_def)
qed

text \<open>
  C1 as stated fails: the telegram \<open>two_tariffs\<close> has the header and every line of the
  scenario, a tariff line of value 1 among them, but an earlier tariff line of value 2
  is the one the search finds.
\<close>

theorem C1_counterexample:
  "hd two_tariffs = hd scenario \<and> set scenario \<subseteq> set two_tariffs
   \<and> map_option (tariff \<circ> kwh \<circ> packet_keys) (new_P1Packet (PyList two_tariffs))
       = Some (PyInt 2)"
  unfolding new_P1Packet_def P1Packet_init_cases
  using two_tariffs_within_limit
  by (simp add: rule_table_def int_rule_def text_of_def two_tariffs_def scenario_def
      kwh_tariff_rx_def eval_rx digits_val_def digit_val_def)

text \<open>
  C1, as amended. Take a telegram text in which the first line matching the
  low-tariff-consumed pattern is \<open>1-0:1.8.1(0608.400*kWh)\<close>, the first line matching
  the tariff pattern has a value of 1 written with at most 4300 digits, the first line
  matching the threshold pattern is \<open>0-0:17.0.0(0999.00*kW)\<close>, the first line matching
  the gas-total pattern has the value \<open>00947.680\<close>, and no line matches the
  message-code pattern. Then the constructor returns a record with low consumed
  608.400, tariff 1, threshold 999.0, gas total 947.680 and no message code. The other
  lines of the scenario play no part in these five fields.
\<close>

theorem C1_scenario_fields:
  assumes "find (matches kwh_low_consumed_rx) (lines_of (text_of data))
             = Some ''1-0:1.8.1(0608.400*kWh)''"
    and "find (matches kwh_tariff_rx) (lines_of (text_of data)) = Some lt"
    and "line_match kwh_tariff_rx lt = Some (Some ds)" "digits_val ds = 1"
    and "length ds \<le> int_max_str_digits"
    and "find (matches kwh_treshold_rx) (lines_of (text_of data))
             = Some ''0-0:17.0.0(0999.00*kW)''"
    and "find (matches gas_total_rx) (lines_of (text_of data)) = Some lg"
    and "line_match gas_total_rx lg = Some (Some ''00947.680'')"
    and "\<forall>l\<in>set (lines_of (text_of data)). \<not> matches msg_code_rx l"
  shows "\<exists>p. new_P1Packet data = Some p
           \<and> consumed (low (kwh (packet_keys p))) = PyFloat (6084 / 10)
           \<and> tariff (kwh (packet_keys p)) = PyInt 1
           \<and> treshold (kwh (packet_keys p)) = PyFloat 999
           \<and> total (gas (packet_keys p)) = PyFloat (947680 / 1000)
           \<and> code (msg (packet_keys p)) = PyNone"
proof -
  have lc: "anchored kwh_low_consumed_rx \<and> nl_free kwh_low_consumed_rx"
    unfolding kwh_low_consumed_rx_def by (rule line_local_energy) simp_all
  have d: "is_digits ''0608''" "is_digits ''400''" "is_digits ''0999''" "is_digits ''00''"
    "is_digits ''00947''" "is_digits ''680''"
    by (simp_all add: is_digits_def is_digit_def)
  have wl: "tariff_within_limit (text_of data)"
    unfolding tariff_limit_by_lines first_line_match_find[OF assms(2)] assms(3)
    using assms(5) by simp
  have "line_match kwh_low_consumed_rx ''1-0:1.8.1(0608.400*kWh)''
          = Some (Some (''0608'' @ CHR ''.'' # ''400''))"
    by (simp add: kwh_low_consumed_rx_def eval_rx)
  from float_rule_first_line[OF lc assms(1) this d(1,2)]
  have f1: "float_rule kwh_low_consumed_rx PyNone (text_of data) = PyFloat (6084 / 10)"
    by (simp add: decimal_val_def digits_val_def digit_val_def)
  from int_rule_first_line[OF line_local_tariff assms(2,3)] assms(4)
  have f2: "int_rule kwh_tariff_rx PyNone (text_of data) = PyInt 1" by simp
  have "line_match kwh_treshold_rx ''0-0:17.0.0(0999.00*kW)''
          = Some (Some (''0999'' @ CHR ''.'' # ''00''))"
    by (simp add: kwh_treshold_rx_def eval_rx numeral_eq_Suc)
  from float_rule_first_line[OF line_local_treshold assms(6) this d(3,4)]
  have f3: "float_rule kwh_treshold_rx PyNone (text_of data) = PyFloat 999"
    by (simp add: decimal_val_def digits_val_def digit_val_def)
  from assms(8) have "line_match gas_total_rx lg = Some (Some (''00947'' @ CHR ''.'' # ''680''))"
    by simp
  from float_rule_first_line[OF line_local_gas_total assms(7) this d(5,6)]
  have f4: "float_rule gas_total_rx (PyInt 0) (text_of data) = PyFloat (947680 / 1000)"
    by (simp add: decimal_val_def digits_val_def digit_val_def)
  from str_rule_no_line[OF line_local_msg_code assms(9)]
  have f5: "str_rule msg_code_rx PyNone (text_of data) = PyNone" .
  show ?thesis
    unfolding new_P1Packet_def P1Packet_init_cases
    by (simp add: rule_table_def wl f1 f2 f3 f4 f5)
qed

theorem C1_scenario_fields_witness:
  "\<exists>p. new_P1Packet (PyList scenario) = Some p
     \<and> consumed (low (kwh (packet_keys p))) = PyFloat (6084 / 10)
     \<and> tariff (kwh (packet_keys p)) = PyInt 1
     \<and> treshold (kwh (packet_keys p)) = PyFloat 999
     \<and> total (gas (packet_keys p)) = PyFloat (947680 / 1000)
     \<and> code (msg (packet_keys p)) = PyNone"
proof -
  note ls = scenario_text
  have h1: "find (matches kwh_low_consumed_rx) (lines_of (text_of (PyList scenario)))
             = Some ''1-0:1.8.1(0608.400*kWh)''"
    unfolding ls by (simp add: scenario_def kwh_low_consumed_rx_def eval_rx)
  have h2: "find (matches kwh_tariff_rx) (lines_of (text_of (PyList scenario)))
             = Some ''0-0:96.14.0(0001)''"
    unfolding ls by (simp add: scenario_def kwh_tariff_rx_def eval_rx)
  have h3: "line_match kwh_tariff_rx ''0-0:96.14.0(0001)'' = Some (Some ''0001'')"
    by (simp add: kwh_tariff_rx_def eval_rx)
  have h4: "digits_val ''0001'' = 1"
    by (simp add: digits_val_def digit_val_def)
  have h4': "length ''0001'' \<le> int_max_str_digits"
    by (simp add: int_max_str_digits_def)
  have h5: "find (matches kwh_treshold_rx) (lines_of (text_of (PyList scenario)))
             = Some ''0-0:17.0.0(0999.00*kW)''"
    unfolding ls by (simp add: scenario_def kwh_treshold_rx_def eval_rx numeral_eq_Suc)
  have h6: "find (matches gas_total_rx) (lines_of (text_of (PyList scenario)))
             = Some ''(00947.680)''"
    unfolding ls by (simp add: scenario_def gas_total_rx_def eval_rx numeral_eq_Suc)
  have h7: "line_match gas_total_rx ''(00947.680)'' = Some (Some ''00947.680'')"
    by (simp add: gas_total_rx_def eval_rx numeral_eq_Suc)
  have h8: "\<forall>l\<in>set (lines_of (text_of (PyList scenario))). \<not> matches msg_code_rx l"
    unfolding ls by (simp add: scenario_def msg_code_rx_def eval_rx)
  from C1_scenario_fields[OF h1 h2 h3 h4 h4' h5 h6 h7 h8] show ?thesis .
qed

end
